theory Spec2Isabelle
  imports Complex_Main
begin

section \<open>Setting bindings (settings.ts)\<close>

text \<open>
  A JavaScript \<^verbatim>\<open>Error\<close> carries its message. An operation that can throw returns
  \<open>Inl (e, st)\<close>, the error together with the state as it is at the moment of the throw
  (whatever was mutated before the throw stays mutated), or \<open>Inr st\<close> when it completes.
\<close>

datatype error = Error string

type_synonym 'st outcome = "(error \<times> 'st) + 'st"

subsection \<open>BaseSetting\<close>

text \<open>
  \<^verbatim>\<open>BaseSetting<T>\<close> has the abstract accessor pair \<^verbatim>\<open>get value()\<close> / \<^verbatim>\<open>set value(val)\<close>,
  supplied by the concrete subclass, and the optional field \<^verbatim>\<open>_onChange\<close>. The storage the
  accessors and the observer work on is outside the binding: it is the type \<open>'st\<close>.
\<close>

record ('st, 'v) setting =
  get_value :: "'st \<Rightarrow> 'v"
  set_value :: "'v \<Rightarrow> 'st \<Rightarrow> 'st"
  onChange_cb :: "('v \<Rightarrow> 'st \<Rightarrow> 'st) option"

definition onChange :: "('v \<Rightarrow> 'st \<Rightarrow> 'st) \<Rightarrow> ('st, 'v) setting \<Rightarrow> ('st, 'v) setting" where
  "onChange callback b = b\<lparr>onChange_cb := Some callback\<rparr>"

text \<open>\<^verbatim>\<open>this._onChange?.(this.value)\<close>: the getter is read, then the observer (if any) runs.\<close>

definition notify :: "('st, 'v) setting \<Rightarrow> 'st \<Rightarrow> 'st" where
  "notify b st = (case onChange_cb b of None \<Rightarrow> st | Some cb \<Rightarrow> cb (get_value b st) st)"

subsection \<open>Change handlers registered by display\<close>

text \<open>
  Each \<^verbatim>\<open>display\<close> registers \<^verbatim>\<open>async value => { this.value = value; this._onChange?.(this.value) }\<close>
  on the control. The body has no \<^verbatim>\<open>await\<close>, so it runs to its end when the control calls it.
\<close>

definition toggle_onChange :: "('st, bool) setting \<Rightarrow> bool \<Rightarrow> 'st \<Rightarrow> 'st" where
  "toggle_onChange b v st = notify b (set_value b v st)"

definition slider_onChange :: "('st, 'n) setting \<Rightarrow> 'n \<Rightarrow> 'st \<Rightarrow> 'st" where
  "slider_onChange b v st = notify b (set_value b v st)"

definition text_onChange :: "('st, string) setting \<Rightarrow> string \<Rightarrow> 'st \<Rightarrow> 'st" where
  "text_onChange b v st = notify b (set_value b v st)"

definition textArea_onChange :: "('st, string) setting \<Rightarrow> string \<Rightarrow> 'st \<Rightarrow> 'st" where
  "textArea_onChange b v st = notify b (set_value b v st)"

subsection \<open>DropdownSetting\<close>

record 'v dd_option =
  opt_key :: string
  opt_label :: string
  opt_value :: 'v

text \<open>
  The values a \<^verbatim>\<open>DropdownSetting<T>\<close> can hold are JavaScript values. \<open>JNumber\<close> is a finite
  number (the two zeros are one number), \<open>JInfinity True\<close> and \<open>JInfinity False\<close> are the
  infinities, and \<open>JObject\<close> is an object (also an array or a function) by its address: two
  objects with the same content are two values.
\<close>

datatype js_value =
    JUndefined
  | JNull
  | JBoolean bool
  | JNumber real
  | JInfinity bool
  | JNaN
  | JString string
  | JBigInt int
  | JSymbol nat
  | JObject nat

text \<open>
  \<^verbatim>\<open>a === b\<close>: the same type and the same value, objects being the same object;
  \<^verbatim>\<open>NaN\<close> is equal to nothing, itself included.
\<close>

definition strict_eq :: "js_value \<Rightarrow> js_value \<Rightarrow> bool" where
  "strict_eq a b = (a = b \<and> a \<noteq> JNaN)"

text \<open>
  \<^verbatim>\<open>const option = this.options.find(opt => opt.value === value)\<close>
  \<^verbatim>\<open>return option?.key ?? this.options[0]?.key ?? ""\<close>
\<close>

definition getKeyForValue :: "js_value dd_option list \<Rightarrow> js_value \<Rightarrow> string" where
  "getKeyForValue options v =
     (case find (\<lambda>opt. strict_eq (opt_value opt) v) options of
        Some option \<Rightarrow> opt_key option
      | None \<Rightarrow> (case options of [] \<Rightarrow> [] | first # _ \<Rightarrow> opt_key first))"

text \<open>
  \<^verbatim>\<open>const option = this.options.find(opt => opt.key === key)\<close>
  \<^verbatim>\<open>if (!option) { throw new Error(`No option found for key: ${key}`) }\<close>
  \<^verbatim>\<open>return option.value\<close>
\<close>

definition getValueForKey :: "'v dd_option list \<Rightarrow> string \<Rightarrow> error + 'v" where
  "getValueForKey options k =
     (case find (\<lambda>opt. opt_key opt = k) options of
        None \<Rightarrow> Inl (Error (''No option found for key: '' @ k))
      | Some option \<Rightarrow> Inr (opt_value option))"

text \<open>
  \<^verbatim>\<open>async key => { this.value = this.getValueForKey(key); this._onChange?.(this.value) }\<close>:
  the right-hand side is evaluated first, so a throw of \<^verbatim>\<open>getValueForKey\<close> leaves the handler
  before the setter and the observer run. The handler has no \<^verbatim>\<open>try\<close>; the error is its outcome.
\<close>

definition dropdown_onChange ::
  "'v dd_option list \<Rightarrow> ('st, 'v) setting \<Rightarrow> string \<Rightarrow> 'st \<Rightarrow> 'st outcome" where
  "dropdown_onChange options b k st =
     (case getValueForKey options k of
        Inl e \<Rightarrow> Inl (e, st)
      | Inr v \<Rightarrow> Inr (notify b (set_value b v st)))"

text \<open>The initial selection of the rendered dropdown: \<^verbatim>\<open>dropdown.setValue(this.getKeyForValue(this.value))\<close>.\<close>

definition dropdown_selected ::
  "js_value dd_option list \<Rightarrow> ('st, js_value) setting \<Rightarrow> 'st \<Rightarrow> string" where
  "dropdown_selected options b st = getKeyForValue options (get_value b st)"

subsection \<open>What the change handlers are to achieve\<close>

text \<open>
  The accessor pair of a concrete setting stores a value and reads it back: the getter
  returns what the setter has last written.
\<close>

definition lawful :: "('st, 'v) setting \<Rightarrow> bool" where
  "lawful b = (\<forall>v st. get_value b (set_value b v st) = v)"

text \<open>
  Following the specification's words: (1) the new value is written through the setter; then
  (2) the observer, if one is registered, is called with the binding's current value, read
  from the getter after the write and not taken from the control's event, and it runs in the
  state the setter has left.
\<close>

definition commit_then_notify :: "('st, 'v) setting \<Rightarrow> 'v \<Rightarrow> 'st \<Rightarrow> 'st" where
  "commit_then_notify b v st =
     (let committed = set_value b v st
      in case onChange_cb b of
           None \<Rightarrow> committed
         | Some cb \<Rightarrow> (let current = get_value b committed in cb current committed))"

section \<open>Logger (logger.ts)\<close>

datatype LogLevel = DEBUG | INFO | WARN | ERROR | SILENT

text \<open>The numbers of the \<^verbatim>\<open>enum\<close>.\<close>

fun level_num :: "LogLevel \<Rightarrow> int" where
  "level_num DEBUG = 30"
| "level_num INFO = 20"
| "level_num WARN = 10"
| "level_num ERROR = 0"
| "level_num SILENT = - 1"

text \<open>A \<^verbatim>\<open>Logger\<close> object: the fields \<^verbatim>\<open>_name\<close> and \<^verbatim>\<open>_logLevel\<close>.\<close>

record logger =
  lg_name :: string
  lg_logLevel :: LogLevel

type_synonym logger_ref = nat

text \<open>
  The static part of the class and the objects it has allocated. \<open>objects\<close> is the store of
  \<^verbatim>\<open>Logger\<close> objects, an object's address being its index, so that "the same instance" is
  "the same address". \<open>loggers\<close> is the \<^verbatim>\<open>Map<string, Logger>\<close> in insertion order.
\<close>

record logger_static =
  loggers :: "(string \<times> logger_ref) list"
  globalLogLevel :: LogLevel
  objects :: "logger list"

definition logger_init :: logger_static where
  "logger_init = \<lparr>loggers = [], globalLogLevel = ERROR, objects = []\<rparr>"

definition shouldLog :: "logger \<Rightarrow> LogLevel \<Rightarrow> bool" where
  "shouldLog lg level = (level_num level \<le> level_num (lg_logLevel lg))"

text \<open>
  \<^verbatim>\<open>if (Logger.loggers.has(name)) { logger = Logger.loggers.get(name)! }\<close>
  \<^verbatim>\<open>else { logger = new Logger(name, Logger.globalLogLevel); Logger.loggers.set(name, logger) }\<close>
  In the second branch the key is absent, so \<^verbatim>\<open>set\<close> appends the entry.
\<close>

definition getLogger :: "string \<Rightarrow> logger_static \<Rightarrow> logger_ref \<times> logger_static" where
  "getLogger name s =
     (case map_of (loggers s) name of
        Some logger \<Rightarrow> (logger, s)
      | None \<Rightarrow>
          (let logger = length (objects s);
               s1 = s\<lparr>objects := objects s @ [\<lparr>lg_name = name, lg_logLevel = globalLogLevel s\<rparr>]\<rparr>
           in (logger, s1\<lparr>loggers := loggers s1 @ [(name, logger)]\<rparr>)))"

text \<open>
  The assignment to one logger of the loop. The registry holds addresses of allocated
  objects only (\<open>registry_ok\<close> below), so the guard is never false in a run of the class.
\<close>

definition set_level :: "LogLevel \<Rightarrow> logger_ref \<Rightarrow> logger list \<Rightarrow> logger list" where
  "set_level level r objs = (if r < length objs then objs[r := (objs ! r)\<lparr>lg_logLevel := level\<rparr>] else objs)"

text \<open>
  \<^verbatim>\<open>Logger.globalLogLevel = level\<close>
  \<^verbatim>\<open>for (const logger of Logger.loggers.values()) { logger._logLevel = level }\<close>
\<close>

definition setGlobalLogLevel :: "LogLevel \<Rightarrow> logger_static \<Rightarrow> logger_static" where
  "setGlobalLogLevel level s =
     (let s1 = s\<lparr>globalLogLevel := level\<rparr>
      in s1\<lparr>objects := fold (set_level level) (map snd (loggers s1)) (objects s1)\<rparr>)"

definition getGlobalLogLevel :: "logger_static \<Rightarrow> LogLevel" where
  "getGlobalLogLevel s = globalLogLevel s"

text \<open>Calls of the two static methods, and a run of them.\<close>

datatype logger_call = GetLogger string | SetGlobalLogLevel LogLevel

fun logger_step :: "logger_call \<Rightarrow> logger_static \<Rightarrow> logger_static" where
  "logger_step (GetLogger name) s = snd (getLogger name s)"
| "logger_step (SetGlobalLogLevel level) s = setGlobalLogLevel level s"

definition logger_run :: "logger_call list \<Rightarrow> logger_static \<Rightarrow> logger_static" where
  "logger_run cs s = fold logger_step cs s"

text \<open>Every registered logger is an allocated object.\<close>

definition registry_ok :: "logger_static \<Rightarrow> bool" where
  "registry_ok s = (\<forall>r \<in> snd ` set (loggers s). r < length (objects s))"

section \<open>Settings tab pages and the tab manager\<close>

subsection \<open>SettingsTabPage\<close>

text \<open>
  Pages are objects, and the same page object can be referred to from several places (the
  registry, \<^verbatim>\<open>activeTab\<close>, the click listeners), so a page is an address and its fields live
  in stores indexed by it.
\<close>

type_synonym page_ref = nat

text \<open>
  A page's name is a JavaScript string: a sequence of UTF-16 code units. \<open>js\<close> writes one
  down from ASCII text.
\<close>

type_synonym jstring = "nat list"

definition js :: "string \<Rightarrow> jstring" where
  "js s = map of_char s"

text \<open>
  \<^verbatim>\<open>get id() { return this._name.toLowerCase().replace(/\s+/g, "-") }\<close>. The class \<^verbatim>\<open>\s\<close> is
  the white space and line terminator code units of the language: U+0009 to U+000D, U+0020,
  U+00A0, U+1680, U+2000 to U+200A, U+2028, U+2029, U+202F, U+205F, U+3000 and U+FEFF. Each
  maximal run of them becomes one hyphen. \<^verbatim>\<open>toLowerCase\<close> is the language's own function on
  strings; it is not written out but taken as the parameter \<open>lower\<close>.
\<close>

definition is_space :: "nat \<Rightarrow> bool" where
  "is_space c =
     (c \<in> {9, 10, 11, 12, 13, 32, 160, 5760, 8232, 8233, 8239, 8287, 12288, 65279}
      \<or> (8192 \<le> c \<and> c \<le> 8202))"

function replace_ws :: "jstring \<Rightarrow> jstring" where
  "replace_ws [] = []"
| "replace_ws (c # cs) =
     (if is_space c then 45 # replace_ws (dropWhile is_space cs) else c # replace_ws cs)"
  by pat_completeness auto
termination
  by (relation "measure length") (auto simp: le_imp_less_Suc length_dropWhile_le)

definition slug :: "(jstring \<Rightarrow> jstring) \<Rightarrow> jstring \<Rightarrow> jstring" where
  "slug lower name = replace_ws (lower name)"

text \<open>What \<^verbatim>\<open>toLowerCase\<close> does to a string of ASCII code units.\<close>

definition ascii_lower :: "jstring \<Rightarrow> jstring" where
  "ascii_lower name = map (\<lambda>c. if 65 \<le> c \<and> c \<le> 90 then c + 32 else c) name"

text \<open>
  The calls the manager makes into page objects. \<^verbatim>\<open>onActivate\<close> and \<^verbatim>\<open>onDeactivate\<close> are
  empty in the base class and \<^verbatim>\<open>display\<close> is abstract; what the manager contributes is that
  it calls them, in which order, and in which state. Each call is logged with the
  \<^verbatim>\<open>isActive\<close> flags as they are when the call is made.
\<close>

datatype hook = OnDeactivate page_ref | OnActivate page_ref | PageDisplay page_ref

type_synonym call = "hook \<times> (page_ref \<Rightarrow> bool)"

subsection \<open>The rendered regions\<close>

text \<open>
  A tab button: its text, the page its click listener has captured, and whether it carries
  the class \<^verbatim>\<open>obskit-settings-tab-button-active\<close>.
\<close>

record button =
  btn_text :: jstring
  btn_tab :: page_ref
  btn_active :: bool

text \<open>A child of the host's container element: a \<^verbatim>\<open>div\<close> with its class, or anything else.\<close>

datatype element = Div string | HostContent string

subsection \<open>SettingsTabManager\<close>

text \<open>
  The manager's four fields, the host's container element, the stores of the page objects
  (\<^verbatim>\<open>isActive\<close>, initially false, and \<^verbatim>\<open>_name\<close>), the log of calls into pages, and the
  language's \<^verbatim>\<open>toLowerCase\<close>.
  \<open>tabContainer\<close> and \<open>contentContainer\<close> are \<open>None\<close> for \<^verbatim>\<open>null\<close>; otherwise they hold the
  children of the region: the buttons, and the pages whose \<^verbatim>\<open>display\<close> has filled the content
  region since it was last emptied.
\<close>

record world =
  tabs :: "page_ref list"
  activeTab :: "page_ref option"
  tabContainer :: "button list option"
  contentContainer :: "page_ref list option"
  containerEl :: "element list"
  isActive :: "page_ref \<Rightarrow> bool"
  pageName :: "page_ref \<Rightarrow> jstring"
  trace :: "call list"
  toLowerCase :: "jstring \<Rightarrow> jstring"

definition new_world ::
  "(jstring \<Rightarrow> jstring) \<Rightarrow> (page_ref \<Rightarrow> jstring) \<Rightarrow> element list \<Rightarrow> world" where
  "new_world lower names els =
     \<lparr>tabs = [], activeTab = None, tabContainer = None, contentContainer = None,
      containerEl = els, isActive = (\<lambda>_. False), pageName = names, trace = [],
      toLowerCase = lower\<rparr>"

definition page_id :: "world \<Rightarrow> page_ref \<Rightarrow> jstring" where
  "page_id w p = slug (toLowerCase w) (pageName w p)"

definition invoke :: "hook \<Rightarrow> world \<Rightarrow> world" where
  "invoke h w = w\<lparr>trace := trace w @ [(h, isActive w)]\<rparr>"

definition addTab :: "page_ref \<Rightarrow> world \<Rightarrow> world" where
  "addTab tab w = w\<lparr>tabs := tabs w @ [tab]\<rparr>"

definition addTabs :: "page_ref list \<Rightarrow> world \<Rightarrow> world" where
  "addTabs ts w = w\<lparr>tabs := tabs w @ ts\<rparr>"

definition getTabs :: "world \<Rightarrow> page_ref list" where
  "getTabs w = tabs w"

definition getActiveTab :: "world \<Rightarrow> page_ref option" where
  "getActiveTab w = activeTab w"

text \<open>
  \<^verbatim>\<open>if (!this.tabContainer) return\<close>; then, for each button of the strip and its index, the
  page \<^verbatim>\<open>this.tabs[index]\<close>, if there is one, decides whether the class is added or removed.
\<close>

definition updateTabButtonStyles :: "world \<Rightarrow> world" where
  "updateTabButtonStyles w =
     (case tabContainer w of
        None \<Rightarrow> w
      | Some tabButtons \<Rightarrow>
          w\<lparr>tabContainer := Some (map (\<lambda>(index, button).
               if index < length (tabs w)
               then button\<lparr>btn_active := isActive w (tabs w ! index)\<rparr>
               else button) (enumerate 0 tabButtons))\<rparr>)"

text \<open>
  \<^verbatim>\<open>if (!this.contentContainer || !this.activeTab) return\<close>
  \<^verbatim>\<open>this.contentContainer.empty(); this.activeTab.display(this.contentContainer)\<close>
\<close>

definition displayActiveTabContent :: "world \<Rightarrow> world" where
  "displayActiveTabContent w =
     (case contentContainer w of
        None \<Rightarrow> w
      | Some _ \<Rightarrow>
          (case activeTab w of
             None \<Rightarrow> w
           | Some tab \<Rightarrow>
               (let w1 = w\<lparr>contentContainer := Some []\<rparr>;
                    w2 = invoke (PageDisplay tab) w1
                in w2\<lparr>contentContainer := Some [tab]\<rparr>)))"

text \<open>
  \<^verbatim>\<open>if (this.activeTab) { this.activeTab.isActive = false; this.activeTab.onDeactivate() }\<close>
  \<^verbatim>\<open>this.activeTab = tab; tab.isActive = true; tab.onActivate()\<close>
  \<^verbatim>\<open>this.updateTabButtonStyles(); this.displayActiveTabContent()\<close>
\<close>

definition activateTab :: "page_ref \<Rightarrow> world \<Rightarrow> world" where
  "activateTab tab w =
     (let w1 = (case activeTab w of
                  None \<Rightarrow> w
                | Some cur \<Rightarrow> invoke (OnDeactivate cur) (w\<lparr>isActive := (isActive w)(cur := False)\<rparr>));
          w2 = w1\<lparr>activeTab := Some tab\<rparr>;
          w3 = w2\<lparr>isActive := (isActive w2)(tab := True)\<rparr>;
          w4 = invoke (OnActivate tab) w3
      in displayActiveTabContent (updateTabButtonStyles w4))"

text \<open>
  \<^verbatim>\<open>if (index >= 0 && index < this.tabs.length) { const tab = this.tabs[index]; if (tab) ... }\<close>
  for an integral \<^verbatim>\<open>index\<close>.
\<close>

definition setActiveTab :: "int \<Rightarrow> world \<Rightarrow> world" where
  "setActiveTab index w =
     (if 0 \<le> index \<and> index < int (length (tabs w))
      then activateTab (tabs w ! nat index) w
      else w)"

definition setActiveTabById :: "jstring \<Rightarrow> world \<Rightarrow> world" where
  "setActiveTabById ident w =
     (case find (\<lambda>t. page_id w t = ident) (tabs w) of
        Some tab \<Rightarrow> activateTab tab w
      | None \<Rightarrow> w)"

text \<open>
  \<^verbatim>\<open>display(containerEl)\<close> of the manager: the check comes first; then the container is
  emptied, the two regions and the buttons are created, and the first page is activated.
\<close>

definition create_regions :: "world \<Rightarrow> world" where
  "create_regions w =
     (let w1 = w\<lparr>tabContainer := Some [],
                 containerEl := containerEl w @ [Div ''obskit-settings-tab-container'']\<rparr>;
          w2 = w1\<lparr>contentContainer := Some [],
                  containerEl := containerEl w1 @ [Div ''obskit-settings-tab-content'']\<rparr>
      in w2\<lparr>tabContainer := Some (map (\<lambda>tab.
                \<lparr>btn_text = pageName w2 tab, btn_tab = tab, btn_active = False\<rparr>) (tabs w2))\<rparr>)"

text \<open>
  \<^verbatim>\<open>if (this.tabs.length > 0) { const firstTab = this.tabs[0]; if (firstTab) { this.activateTab(firstTab) } }\<close>
\<close>

definition activate_first :: "world \<Rightarrow> world" where
  "activate_first w = (case tabs w of [] \<Rightarrow> w | firstTab # _ \<Rightarrow> activateTab firstTab w)"

definition display :: "world \<Rightarrow> world outcome" where
  "display w =
     (if length (tabs w) = 0
      then Inl (Error ''No tabs have been added to the manager'', w)
      else Inr (activate_first (create_regions (w\<lparr>containerEl := []\<rparr>))))"

text \<open>A click on the button at a position of the strip runs its listener.\<close>

definition click :: "nat \<Rightarrow> world \<Rightarrow> world" where
  "click i w =
     (case tabContainer w of
        None \<Rightarrow> w
      | Some tabButtons \<Rightarrow> if i < length tabButtons then activateTab (btn_tab (tabButtons ! i)) w else w)"

subsection \<open>PluginSettingsTab\<close>

text \<open>
  \<^verbatim>\<open>hide()\<close>: \<^verbatim>\<open>const activeTab = this.tabManager.getActiveTab()\<close>;
  \<^verbatim>\<open>if (activeTab) { activeTab.isActive = false; activeTab.onDeactivate() }\<close>
\<close>

definition hide :: "world \<Rightarrow> world" where
  "hide w =
     (case getActiveTab w of
        None \<Rightarrow> w
      | Some active \<Rightarrow> invoke (OnDeactivate active) (w\<lparr>isActive := (isActive w)(active := False)\<rparr>))"

text \<open>\<^verbatim>\<open>display()\<close> of the settings tab that owns a manager: \<^verbatim>\<open>this.tabManager.display(this.containerEl)\<close>.\<close>

definition settingsTab_display :: "world \<Rightarrow> world outcome" where
  "settingsTab_display w = display w"

text \<open>
  The older \<^verbatim>\<open>PluginSettingsTab\<close>, which holds the registry itself and has the same
  \<^verbatim>\<open>activateTab\<close>, \<^verbatim>\<open>setActiveTab\<close>, \<^verbatim>\<open>setActiveTabById\<close> and \<^verbatim>\<open>hide\<close>. Its \<^verbatim>\<open>display()\<close>
  begins with \<^verbatim>\<open>this.containerEl.empty()\<close> and checks the registry after that
  (message: \<^verbatim>\<open>No tabs have been added to the settings tab\<close>).
\<close>

definition builtin_display :: "world \<Rightarrow> world outcome" where
  "builtin_display w =
     (let w1 = w\<lparr>containerEl := []\<rparr>
      in if length (tabs w1) = 0
         then Inl (Error ''No tabs have been added to the settings tab'', w1)
         else Inr (activate_first (create_regions w1)))"

subsection \<open>Runs of the manager\<close>

datatype tab_call = ActivateTab page_ref | SetActiveTab int | SetActiveTabById jstring

fun tab_step :: "tab_call \<Rightarrow> world \<Rightarrow> world" where
  "tab_step (ActivateTab p) w = activateTab p w"
| "tab_step (SetActiveTab index) w = setActiveTab index w"
| "tab_step (SetActiveTabById ident) w = setActiveTabById ident w"

definition run_calls :: "tab_call list \<Rightarrow> world \<Rightarrow> world" where
  "run_calls cs w = fold tab_step cs w"

text \<open>The page of the most recent \<^verbatim>\<open>onActivate\<close> call in the log.\<close>

fun activated_page :: "call \<Rightarrow> page_ref option" where
  "activated_page (OnActivate p, _) = Some p"
| "activated_page _ = None"

definition last_activated :: "world \<Rightarrow> page_ref option" where
  "last_activated w =
     (case List.map_filter activated_page (trace w) of [] \<Rightarrow> None | ps \<Rightarrow> Some (last ps))"

text \<open>The registered pages whose flag is set.\<close>

definition active_pages :: "world \<Rightarrow> page_ref set" where
  "active_pages w = {p \<in> set (tabs w). isActive w p}"

text \<open>
  The states a manager and its settings tab reach from a new manager over fresh pages:
  registrations, activations, clicks, renders of either variant (a failed render of the
  manager leaves the state as it is) and \<^verbatim>\<open>hide\<close>, in any order.
\<close>

inductive reachable :: "world \<Rightarrow> bool" where
  r_new: "reachable (new_world lower names els)"
| r_addTab: "reachable w \<Longrightarrow> reachable (addTab tab w)"
| r_addTabs: "reachable w \<Longrightarrow> reachable (addTabs ts w)"
| r_setActiveTab: "reachable w \<Longrightarrow> reachable (setActiveTab index w)"
| r_setActiveTabById: "reachable w \<Longrightarrow> reachable (setActiveTabById ident w)"
| r_click: "reachable w \<Longrightarrow> reachable (click i w)"
| r_display: "reachable w \<Longrightarrow> display w = Inr w' \<Longrightarrow> reachable w'"
| r_builtin_display: "reachable w \<Longrightarrow> builtin_display w = Inr w' \<Longrightarrow> reachable w'"
| r_builtin_display_failed: "reachable w \<Longrightarrow> builtin_display w = Inl (e, w') \<Longrightarrow> reachable w'"
| r_hide: "reachable w \<Longrightarrow> reachable (hide w)"

text \<open>
  The states of a manager on which \<^verbatim>\<open>display\<close> has run and \<^verbatim>\<open>hide\<close> has not run since: a
  render of either variant has succeeded, from any state the manager can reach, and after it
  come only registrations, activations and clicks. (A further render leads to such a state
  again, by the first two rules.)
\<close>

inductive rendered :: "world \<Rightarrow> bool" where
  rd_display: "reachable w \<Longrightarrow> display w = Inr w' \<Longrightarrow> rendered w'"
| rd_builtin_display: "reachable w \<Longrightarrow> builtin_display w = Inr w' \<Longrightarrow> rendered w'"
| rd_addTab: "rendered w \<Longrightarrow> rendered (addTab tab w)"
| rd_addTabs: "rendered w \<Longrightarrow> rendered (addTabs ts w)"
| rd_setActiveTab: "rendered w \<Longrightarrow> rendered (setActiveTab index w)"
| rd_setActiveTabById: "rendered w \<Longrightarrow> rendered (setActiveTabById ident w)"
| rd_click: "rendered w \<Longrightarrow> rendered (click i w)"

text \<open>The click listener of every tab button holds a registered page.\<close>

definition buttons_registered :: "world \<Rightarrow> bool" where
  "buttons_registered w =
     (case tabContainer w of None \<Rightarrow> True | Some bs \<Rightarrow> btn_tab ` set bs \<subseteq> set (tabs w))"

text \<open>No page other than the manager's \<^verbatim>\<open>activeTab\<close> has its flag set.\<close>

definition only_current_active :: "world \<Rightarrow> bool" where
  "only_current_active w = (\<forall>p. isActive w p \<longrightarrow> activeTab w = Some p)"

text \<open>One registered page is active, it is the manager's \<open>activeTab\<close>, and it is the page
  of the latest \<open>onActivate\<close> call.\<close>

definition one_active :: "world \<Rightarrow> page_ref \<Rightarrow> bool" where
  "one_active w p = (active_pages w = {p} \<and> activeTab w = Some p \<and> last_activated w = Some p)"

section \<open>Example configurations\<close>

text \<open>
  Settings after those of the example plugin: each setter writes its field (the save request
  to the host is left out), and the observers record what they are given and what the getter
  returns while they run.
\<close>

record plugin_settings =
  enableFeature :: bool
  userName :: string
  refreshInterval :: int
  theme :: string
  memoText :: string
  seen :: "string list"
  reported :: "int list"

definition enableFeatureSetting :: "(plugin_settings, bool) setting" where
  "enableFeatureSetting =
     \<lparr>get_value = enableFeature,
      set_value = (\<lambda>val st. st\<lparr>enableFeature := val\<rparr>),
      onChange_cb = Some (\<lambda>val st. st\<lparr>seen := seen st @
         [if val then ''got true'' else ''got false'',
          if enableFeature st then ''getter true'' else ''getter false'']\<rparr>)\<rparr>"

definition refreshIntervalSetting :: "(plugin_settings, int) setting" where
  "refreshIntervalSetting =
     \<lparr>get_value = refreshInterval,
      set_value = (\<lambda>val st. st\<lparr>refreshInterval := val\<rparr>),
      onChange_cb = Some (\<lambda>val st. st\<lparr>seen := seen st @
         [if val = refreshInterval st then ''committed'' else ''stale'']\<rparr>)\<rparr>"

text \<open>
  A slider whose setter stores at most 60, so that the getter need not return what the
  control has reported; its observer records the value it is given and the getter's value.
\<close>

definition cappedIntervalSetting :: "(plugin_settings, int) setting" where
  "cappedIntervalSetting =
     \<lparr>get_value = refreshInterval,
      set_value = (\<lambda>val st. st\<lparr>refreshInterval := min val 60\<rparr>),
      onChange_cb = Some (\<lambda>val st. st\<lparr>reported := reported st @ [val, refreshInterval st]\<rparr>)\<rparr>"

definition userNameSetting :: "(plugin_settings, string) setting" where
  "userNameSetting =
     \<lparr>get_value = userName,
      set_value = (\<lambda>val st. st\<lparr>userName := val\<rparr>),
      onChange_cb = Some (\<lambda>val st. st\<lparr>seen := seen st @ [val, userName st]\<rparr>)\<rparr>"

definition memoSetting :: "(plugin_settings, string) setting" where
  "memoSetting =
     \<lparr>get_value = memoText,
      set_value = (\<lambda>val st. st\<lparr>memoText := val\<rparr>),
      onChange_cb = None\<rparr>"

definition themeSetting :: "(plugin_settings, string) setting" where
  "themeSetting =
     \<lparr>get_value = theme,
      set_value = (\<lambda>val st. st\<lparr>theme := val\<rparr>),
      onChange_cb = Some (\<lambda>val st. st\<lparr>seen := seen st @ [val, theme st]\<rparr>)\<rparr>"

definition theme_options :: "string dd_option list" where
  "theme_options =
     [\<lparr>opt_key = ''default'', opt_label = ''Default'', opt_value = ''default''\<rparr>,
      \<lparr>opt_key = ''dark'', opt_label = ''Dark'', opt_value = ''dark''\<rparr>,
      \<lparr>opt_key = ''light'', opt_label = ''Light'', opt_value = ''light''\<rparr>,
      \<lparr>opt_key = ''custom'', opt_label = ''Custom'', opt_value = ''custom''\<rparr>]"

definition default_settings :: plugin_settings where
  "default_settings =
     \<lparr>enableFeature = True, userName = [], refreshInterval = 30, theme = ''default'',
      memoText = [], seen = [], reported = []\<rparr>"

text \<open>Options whose values differ and whose keys do not.\<close>

definition clash_options :: "js_value dd_option list" where
  "clash_options =
     [\<lparr>opt_key = ''a'', opt_label = ''One'', opt_value = JNumber 1\<rparr>,
      \<lparr>opt_key = ''a'', opt_label = ''Two'', opt_value = JNumber 2\<rparr>]"

text \<open>Options with distinct keys and distinct values, one of the values being \<^verbatim>\<open>NaN\<close>.\<close>

definition nan_options :: "js_value dd_option list" where
  "nan_options =
     [\<lparr>opt_key = ''one'', opt_label = ''One'', opt_value = JNumber 1\<rparr>,
      \<lparr>opt_key = ''none'', opt_label = ''None'', opt_value = JNaN\<rparr>]"

text \<open>The options of the example plugin's log level dropdown, and options that are objects.\<close>

definition level_options :: "js_value dd_option list" where
  "level_options =
     [\<lparr>opt_key = ''debug'', opt_label = ''Debug'', opt_value = JNumber 30\<rparr>,
      \<lparr>opt_key = ''info'', opt_label = ''Info'', opt_value = JNumber 20\<rparr>,
      \<lparr>opt_key = ''warn'', opt_label = ''Warn'', opt_value = JNumber 10\<rparr>,
      \<lparr>opt_key = ''error'', opt_label = ''Error'', opt_value = JNumber 0\<rparr>,
      \<lparr>opt_key = ''silent'', opt_label = ''Silent'', opt_value = JNumber (- 1)\<rparr>]"

definition object_options :: "js_value dd_option list" where
  "object_options =
     [\<lparr>opt_key = ''a'', opt_label = ''First'', opt_value = JObject 1\<rparr>,
      \<lparr>opt_key = ''b'', opt_label = ''Second'', opt_value = JObject 2\<rparr>]"

text \<open>A registry after three calls.\<close>

definition two_loggers :: logger_static where
  "two_loggers = logger_run [GetLogger ''main'', SetGlobalLogLevel INFO, GetLogger ''ui''] logger_init"

text \<open>
  A manager over the three pages of the example plugin, before and after its first render,
  and a manager without pages whose container still shows earlier content. The names are
  ASCII, so \<open>ascii_lower\<close> stands for \<^verbatim>\<open>toLowerCase\<close>.
\<close>

definition example_names :: "page_ref \<Rightarrow> jstring" where
  "example_names p =
     (if p = 0 then js ''General'' else if p = 1 then js ''Performance''
      else if p = 2 then js ''Advanced'' else [])"

definition empty_manager :: world where
  "empty_manager = new_world ascii_lower example_names [HostContent ''previous content'']"

definition example_manager :: world where
  "example_manager = addTabs [0, 1, 2] empty_manager"

definition example_rendered :: world where
  "example_rendered = activate_first (create_regions (example_manager\<lparr>containerEl := []\<rparr>))"

text \<open>The rendered manager after the host has closed the settings tab.\<close>

definition example_hidden :: world where
  "example_hidden = hide example_rendered"

definition example_calls :: "tab_call list" where
  "example_calls = [SetActiveTabById (js ''advanced''), SetActiveTab 7, ActivateTab 1, SetActiveTab 0]"

section \<open>Properties\<close>

subsection \<open>Key resolution\<close>

lemma find_key_distinct:
  "distinct (map opt_key options) \<Longrightarrow> opt \<in> set options \<Longrightarrow>
   find (\<lambda>x. opt_key x = opt_key opt) options = Some opt"
proof (induction options)
  case Nil
  then show ?case by simp
next
  case (Cons a as)
  show ?case
  proof (cases "a = opt")
    case True
    then show ?thesis by simp
  next
    case False
    with Cons.prems have mem: "opt \<in> set as" by simp
    with Cons.prems have "opt_key a \<noteq> opt_key opt" by auto
    with Cons mem show ?thesis by simp
  qed
qed

lemma strict_eq_same: "strict_eq a b \<Longrightarrow> a = b"
  by (simp add: strict_eq_def)

lemma find_value_member:
  "find (\<lambda>opt. strict_eq (opt_value opt) v) options = Some opt \<Longrightarrow>
   opt \<in> set options \<and> opt_value opt = v"
  by (induction options) (auto split: if_splits dest: strict_eq_same)

lemma find_value_absent:
  "\<forall>opt \<in> set options. \<not> strict_eq (opt_value opt) x \<Longrightarrow>
   find (\<lambda>opt. strict_eq (opt_value opt) x) options = None"
  by (induction options) auto

lemma find_value_present:
  "v \<in> opt_value ` set options \<Longrightarrow> v \<noteq> JNaN \<Longrightarrow>
   \<exists>opt. find (\<lambda>opt. strict_eq (opt_value opt) v) options = Some opt"
  by (induction options) (auto simp: strict_eq_def)

lemma find_key_none: "(find (\<lambda>opt. opt_key opt = k) options = None) = (k \<notin> opt_key ` set options)"
  by (induction options) auto

lemma find_key_first:
  "k \<notin> opt_key ` set pre \<Longrightarrow> opt_key opt = k \<Longrightarrow>
   find (\<lambda>x. opt_key x = k) (pre @ opt # post) = Some opt"
  by (induction pre) auto

text \<open>
  C2, as stated, fails. The options of \<open>clash_options\<close> have pairwise distinct values, the
  value 2 occurs among them, and resolving its key gives back the value 1. The options of
  \<open>nan_options\<close> have pairwise distinct values (and keys), \<^verbatim>\<open>NaN\<close> occurs among them, and
  resolving its key gives back the value 1.
\<close>

theorem round_trip_distinct_values_counterexample:
  "distinct (map opt_value clash_options)
   \<and> JNumber 2 \<in> opt_value ` set clash_options
   \<and> getValueForKey clash_options (getKeyForValue clash_options (JNumber 2)) = Inr (JNumber 1)
   \<and> getValueForKey clash_options (getKeyForValue clash_options (JNumber 2)) \<noteq> Inr (JNumber 2)
   \<and> distinct (map opt_value nan_options)
   \<and> JNaN \<in> opt_value ` set nan_options
   \<and> getValueForKey nan_options (getKeyForValue nan_options JNaN) = Inr (JNumber 1)
   \<and> getValueForKey nan_options (getKeyForValue nan_options JNaN) \<noteq> Inr JNaN"
proof -
  have k: "getKeyForValue clash_options (JNumber 2) = ''a''"
    by (simp add: clash_options_def getKeyForValue_def strict_eq_def)
  have v: "getValueForKey clash_options ''a'' = Inr (JNumber 1)"
    by (simp add: clash_options_def getValueForKey_def)
  have d: "distinct (map opt_value clash_options)" "JNumber 2 \<in> opt_value ` set clash_options"
    by (simp_all add: clash_options_def)
  have k': "getKeyForValue nan_options JNaN = ''one''"
    by (simp add: nan_options_def getKeyForValue_def strict_eq_def)
  have v': "getValueForKey nan_options ''one'' = Inr (JNumber 1)"
    by (simp add: nan_options_def getValueForKey_def)
  have d': "distinct (map opt_value nan_options)" "JNaN \<in> opt_value ` set nan_options"
    by (simp_all add: nan_options_def)
  show ?thesis unfolding k v k' v' using d d' by simp
qed

text \<open>
  C2, amended. Values are compared as \<^verbatim>\<open>===\<close> compares them. For a dropdown whose options have
  pairwise distinct keys, resolving the key of a value that occurs in the options and is not
  \<^verbatim>\<open>NaN\<close> gives that value back; a value that is \<^verbatim>\<open>===\<close> to the value of no option (every
  value that does not occur in the options, and \<^verbatim>\<open>NaN\<close> in any case) resolves to the key of the
  first option; on an empty sequence the key is the empty string.
\<close>

theorem key_value_round_trip:
  assumes "distinct (map opt_key options)"
  shows "(\<forall>v \<in> opt_value ` set options. v \<noteq> JNaN \<longrightarrow>
            getValueForKey options (getKeyForValue options v) = Inr v)
       \<and> (\<forall>x. (\<forall>opt \<in> set options. \<not> strict_eq (opt_value opt) x) \<longrightarrow>
              getKeyForValue options x = (case options of [] \<Rightarrow> [] | first # _ \<Rightarrow> opt_key first))
       \<and> (\<forall>x. x \<notin> opt_value ` set options \<or> x = JNaN \<longrightarrow>
              (\<forall>opt \<in> set options. \<not> strict_eq (opt_value opt) x))
       \<and> getKeyForValue [] y = []"
proof (intro conjI ballI allI impI)
  fix v assume "v \<in> opt_value ` set options" and "v \<noteq> JNaN"
  then obtain opt where f: "find (\<lambda>opt. strict_eq (opt_value opt) v) options = Some opt"
    using find_value_present [of v options] by auto
  have m: "opt \<in> set options" and v: "opt_value opt = v"
    using find_value_member [OF f] by simp_all
  have "find (\<lambda>x. opt_key x = opt_key opt) options = Some opt"
    using find_key_distinct [OF assms m] .
  with f v show "getValueForKey options (getKeyForValue options v) = Inr v"
    by (simp add: getKeyForValue_def getValueForKey_def)
next
  fix x assume "\<forall>opt \<in> set options. \<not> strict_eq (opt_value opt) x"
  then show "getKeyForValue options x = (case options of [] \<Rightarrow> [] | first # _ \<Rightarrow> opt_key first)"
    by (simp add: getKeyForValue_def find_value_absent)
next
  fix x opt assume "x \<notin> opt_value ` set options \<or> x = JNaN" and "opt \<in> set options"
  then show "\<not> strict_eq (opt_value opt) x"
    by (auto simp: strict_eq_def)
next
  show "getKeyForValue [] y = []"
    by (simp add: getKeyForValue_def)
qed

theorem key_value_round_trip_witness:
  "distinct (map opt_key level_options)
   \<and> getValueForKey level_options (getKeyForValue level_options (JNumber 10)) = Inr (JNumber 10)
   \<and> getKeyForValue level_options (JNumber 15) = ''debug''
   \<and> getKeyForValue level_options JNaN = ''debug''
   \<and> distinct (map opt_key object_options)
   \<and> getValueForKey object_options (getKeyForValue object_options (JObject 2)) = Inr (JObject 2)
   \<and> getKeyForValue object_options (JObject 3) = ''a''
   \<and> getKeyForValue [] (JString ''dark'') = []"
proof -
  have d: "distinct (map opt_key level_options)" by (simp add: level_options_def)
  have m: "JNumber 10 \<in> opt_value ` set level_options" by (simp add: level_options_def)
  have n: "JNumber 15 \<notin> opt_value ` set level_options" by (simp add: level_options_def)
  have d': "distinct (map opt_key object_options)" by (simp add: object_options_def)
  have m': "JObject 2 \<in> opt_value ` set object_options" by (simp add: object_options_def)
  have n': "JObject 3 \<notin> opt_value ` set object_options" by (simp add: object_options_def)
  note w = key_value_round_trip [OF d, of "JString ''dark''"]
  note w' = key_value_round_trip [OF d']
  have r: "getValueForKey level_options (getKeyForValue level_options (JNumber 10)) = Inr (JNumber 10)"
    using w m by blast
  have r': "getValueForKey object_options (getKeyForValue object_options (JObject 2)) = Inr (JObject 2)"
    using w' m' by blast
  have a: "getKeyForValue level_options (JNumber 15) = ''debug''"
    "getKeyForValue level_options JNaN = ''debug''"
    using w n by (simp_all add: level_options_def)
  have a': "getKeyForValue object_options (JObject 3) = ''a''"
    using w' n' by (simp add: object_options_def)
  have e: "getKeyForValue [] (JString ''dark'') = []"
    using w by simp
  from d d' r r' a a' e show ?thesis by simp
qed

text \<open>
  C7. \<open>getValueForKey\<close> fails with the lookup error exactly when no option has the key;
  otherwise it returns the value of the first option with that key (the only one, when keys
  are unique). The change handler of the dropdown does not catch the error: it is the
  handler's outcome, and neither the setter nor the observer has run.
\<close>

theorem getValueForKey_lookup:
  "((getValueForKey options k = Inl (Error (''No option found for key: '' @ k)))
      = (k \<notin> opt_key ` set options))
   \<and> ((\<exists>e. getValueForKey options k = Inl e) = (k \<notin> opt_key ` set options))
   \<and> (\<forall>pre opt post. options = pre @ opt # post \<and> opt_key opt = k \<and> k \<notin> opt_key ` set pre
         \<longrightarrow> getValueForKey options k = Inr (opt_value opt))
   \<and> (k \<notin> opt_key ` set options \<longrightarrow>
         dropdown_onChange options b k st = Inl (Error (''No option found for key: '' @ k), st))"
proof -
  have none: "(find (\<lambda>opt. opt_key opt = k) options = None) = (k \<notin> opt_key ` set options)"
    by (rule find_key_none)
  have a: "(getValueForKey options k = Inl (Error (''No option found for key: '' @ k)))
      = (k \<notin> opt_key ` set options)"
    using none by (auto simp: getValueForKey_def split: option.splits)
  have b: "(\<exists>e. getValueForKey options k = Inl e) = (k \<notin> opt_key ` set options)"
    using none by (auto simp: getValueForKey_def split: option.splits)
  have c: "getValueForKey options k = Inr (opt_value opt)"
    if "options = pre @ opt # post" "opt_key opt = k" "k \<notin> opt_key ` set pre" for pre opt post
    using that find_key_first [of k pre opt post] by (simp add: getValueForKey_def)
  have d: "dropdown_onChange options b k st = Inl (Error (''No option found for key: '' @ k), st)"
    if "k \<notin> opt_key ` set options"
    using that a by (simp add: dropdown_onChange_def)
  show ?thesis
  proof (intro conjI allI impI)
    fix pre opt post
    assume "options = pre @ opt # post \<and> opt_key opt = k \<and> k \<notin> opt_key ` set pre"
    then show "getValueForKey options k = Inr (opt_value opt)"
      using c [of pre opt post] by simp
  next
    assume "k \<notin> opt_key ` set options"
    then show "dropdown_onChange options b k st = Inl (Error (''No option found for key: '' @ k), st)"
      by (rule d)
  qed (rule a, rule b)
qed

theorem getValueForKey_lookup_witness:
  "''sepia'' \<notin> opt_key ` set theme_options
   \<and> getValueForKey theme_options ''sepia'' = Inl (Error ''No option found for key: sepia'')
   \<and> dropdown_onChange theme_options themeSetting ''sepia'' default_settings
       = Inl (Error ''No option found for key: sepia'', default_settings)
   \<and> ''light'' \<in> opt_key ` set theme_options
   \<and> getValueForKey theme_options ''light'' = Inr ''light''"
proof -
  have a: "''sepia'' \<notin> opt_key ` set theme_options"
    by (simp add: theme_options_def)
  have s: "theme_options = take 2 theme_options @ (theme_options ! 2) # drop 3 theme_options"
    by (simp add: theme_options_def)
  have k: "opt_key (theme_options ! 2) = ''light''" "''light'' \<notin> opt_key ` set (take 2 theme_options)"
    "opt_value (theme_options ! 2) = ''light''" "''light'' \<in> opt_key ` set theme_options"
    by (simp_all add: theme_options_def)
  note w1 = getValueForKey_lookup [of theme_options "''sepia''" themeSetting default_settings]
  note w2 = getValueForKey_lookup [of theme_options "''light''" themeSetting default_settings]
  have e: "getValueForKey theme_options ''sepia'' = Inl (Error ''No option found for key: sepia'')"
    and h: "dropdown_onChange theme_options themeSetting ''sepia'' default_settings
       = Inl (Error ''No option found for key: sepia'', default_settings)"
    using w1 a by simp_all
  have "getValueForKey theme_options ''light'' = Inr (opt_value (theme_options ! 2))"
    using w2 s k(1,2) by blast
  then show ?thesis using a e h k by simp
qed

subsection \<open>Commit before notify\<close>

lemma notify_commit: "notify b (set_value b v st) = commit_then_notify b v st"
  by (simp add: notify_def commit_then_notify_def Let_def split: option.splits)

text \<open>
  C3. For each of the five variants the change handler does what the specification asks: it
  writes the reported value through the setter and then calls the observer, if any, with the
  value read from the getter after the write, in the state the setter has left; so what the
  observer is given is what the getter returns while it runs. For the dropdown the value
  written is the one the reported key resolves to. With an accessor pair that reads back
  what it has written, the observer is given the reported value.
\<close>

theorem commit_before_notify:
  "toggle_onChange bt vt st = commit_then_notify bt vt st
   \<and> slider_onChange bs vs st = commit_then_notify bs vs st
   \<and> text_onChange bx vx st = commit_then_notify bx vx st
   \<and> textArea_onChange ba va st = commit_then_notify ba va st
   \<and> (\<forall>vd. getValueForKey options k = Inr vd \<longrightarrow>
         dropdown_onChange options bd k st = Inr (commit_then_notify bd vd st))
   \<and> (\<forall>cb. onChange_cb b = Some cb \<longrightarrow>
         commit_then_notify b v st = cb (get_value b (set_value b v st)) (set_value b v st))
   \<and> (\<forall>cb. onChange_cb b = Some cb \<and> lawful b \<longrightarrow>
         commit_then_notify b v st = cb v (set_value b v st))"
proof (intro conjI allI impI)
  show "toggle_onChange bt vt st = commit_then_notify bt vt st"
    by (simp add: toggle_onChange_def notify_commit)
  show "slider_onChange bs vs st = commit_then_notify bs vs st"
    by (simp add: slider_onChange_def notify_commit)
  show "text_onChange bx vx st = commit_then_notify bx vx st"
    by (simp add: text_onChange_def notify_commit)
  show "textArea_onChange ba va st = commit_then_notify ba va st"
    by (simp add: textArea_onChange_def notify_commit)
next
  fix vd assume "getValueForKey options k = Inr vd"
  then show "dropdown_onChange options bd k st = Inr (commit_then_notify bd vd st)"
    by (simp add: dropdown_onChange_def notify_commit)
next
  fix cb assume "onChange_cb b = Some cb"
  then show "commit_then_notify b v st = cb (get_value b (set_value b v st)) (set_value b v st)"
    by (simp add: commit_then_notify_def Let_def)
next
  fix cb assume "onChange_cb b = Some cb \<and> lawful b"
  then show "commit_then_notify b v st = cb v (set_value b v st)"
    by (simp add: commit_then_notify_def Let_def lawful_def)
qed

lemma lawful_examples:
  "lawful enableFeatureSetting" "lawful refreshIntervalSetting" "lawful userNameSetting"
  "lawful memoSetting" "lawful themeSetting"
  by (simp_all add: lawful_def enableFeatureSetting_def refreshIntervalSetting_def
      userNameSetting_def memoSetting_def themeSetting_def)

theorem commit_before_notify_witness:
  "getValueForKey theme_options ''dark'' = Inr ''dark''
   \<and> lawful refreshIntervalSetting
   \<and> seen (toggle_onChange enableFeatureSetting False default_settings)
       = [''got false'', ''getter false'']
   \<and> refreshInterval (slider_onChange refreshIntervalSetting 35 default_settings) = 35
   \<and> seen (slider_onChange refreshIntervalSetting 35 default_settings) = [''committed'']
   \<and> refreshInterval (slider_onChange cappedIntervalSetting 100 default_settings) = 60
   \<and> reported (slider_onChange cappedIntervalSetting 100 default_settings) = [60, 60]
   \<and> seen (text_onChange userNameSetting ''ada'' default_settings) = [''ada'', ''ada'']
   \<and> memoText (textArea_onChange memoSetting ''memo'' default_settings) = ''memo''
   \<and> dropdown_onChange theme_options themeSetting ''dark'' default_settings
       = Inr (default_settings\<lparr>theme := ''dark'', seen := [''dark'', ''dark'']\<rparr>)"
proof -
  have k: "getValueForKey theme_options ''dark'' = Inr ''dark''"
    by (simp add: getValueForKey_def theme_options_def)
  have c1: "commit_then_notify enableFeatureSetting False default_settings
      = default_settings\<lparr>enableFeature := False, seen := [''got false'', ''getter false'']\<rparr>"
    by (simp add: commit_then_notify_def enableFeatureSetting_def default_settings_def)
  have c3: "commit_then_notify userNameSetting ''ada'' default_settings
      = default_settings\<lparr>userName := ''ada'', seen := [''ada'', ''ada'']\<rparr>"
    by (simp add: commit_then_notify_def userNameSetting_def default_settings_def)
  have c4: "commit_then_notify memoSetting ''memo'' default_settings
      = default_settings\<lparr>memoText := ''memo''\<rparr>"
    by (simp add: commit_then_notify_def memoSetting_def default_settings_def)
  have c5: "commit_then_notify themeSetting ''dark'' default_settings
      = default_settings\<lparr>theme := ''dark'', seen := [''dark'', ''dark'']\<rparr>"
    by (simp add: commit_then_notify_def themeSetting_def default_settings_def)
  have c2: "commit_then_notify refreshIntervalSetting 35 default_settings
      = default_settings\<lparr>refreshInterval := 35, seen := [''committed'']\<rparr>"
    by (simp add: commit_then_notify_def refreshIntervalSetting_def default_settings_def)
  have c6: "commit_then_notify cappedIntervalSetting 100 default_settings
      = default_settings\<lparr>refreshInterval := 60, reported := [60, 60]\<rparr>"
    by (simp add: commit_then_notify_def cappedIntervalSetting_def default_settings_def)
  note w = commit_before_notify [of enableFeatureSetting False default_settings
      refreshIntervalSetting 35 userNameSetting "''ada''" memoSetting "''memo''"
      theme_options "''dark''" themeSetting refreshIntervalSetting 35]
  note w' = commit_before_notify [of enableFeatureSetting False default_settings
      cappedIntervalSetting 100 userNameSetting "''ada''" memoSetting "''memo''"
      theme_options "''dark''" themeSetting cappedIntervalSetting 100]
  have s6: "slider_onChange cappedIntervalSetting 100 default_settings
      = commit_then_notify cappedIntervalSetting 100 default_settings"
    using w' by blast
  show ?thesis
    using w k lawful_examples(2) by (simp add: c1 c2 c3 c4 c5 c6 s6)
qed

subsection \<open>Logger registry\<close>

lemma length_set_level [simp]: "length (set_level level r objs) = length objs"
  by (simp add: set_level_def)

lemma length_fold_set_level [simp]: "length (fold (set_level level) rs objs) = length objs"
  by (induction rs arbitrary: objs) simp_all

lemma set_level_nth:
  "q < length objs \<Longrightarrow>
   lg_logLevel (set_level level r objs ! q) = (if q = r then level else lg_logLevel (objs ! q))"
  by (simp add: set_level_def nth_list_update)

lemma fold_set_level_nth:
  "q < length objs \<Longrightarrow>
   lg_logLevel (fold (set_level level) rs objs ! q)
     = (if q \<in> set rs then level else lg_logLevel (objs ! q))"
proof (induction rs arbitrary: objs)
  case Nil
  then show ?case by simp
next
  case (Cons r rs)
  have "lg_logLevel (fold (set_level level) rs (set_level level r objs) ! q)
      = (if q \<in> set rs then level else lg_logLevel (set_level level r objs ! q))"
    using Cons.prems by (intro Cons.IH) simp
  then show ?case using Cons.prems by (simp add: set_level_nth)
qed

lemma getLogger_registered:
  "map_of (loggers s) name = Some r \<Longrightarrow> getLogger name s = (r, s)"
  by (simp add: getLogger_def)

lemma getLogger_registers:
  "map_of (loggers (snd (getLogger name s))) name = Some (fst (getLogger name s))"
  by (cases "map_of (loggers s) name") (simp_all add: getLogger_def Let_def map_add_def)

lemma getLogger_keeps:
  "map_of (loggers s) name = Some r \<Longrightarrow> map_of (loggers (snd (getLogger other s))) name = Some r"
  by (cases "map_of (loggers s) other") (auto simp: getLogger_def Let_def)

lemma setGlobalLogLevel_loggers [simp]: "loggers (setGlobalLogLevel level s) = loggers s"
  by (simp add: setGlobalLogLevel_def Let_def)

lemma logger_step_keeps:
  "map_of (loggers s) name = Some r \<Longrightarrow> map_of (loggers (logger_step c s)) name = Some r"
  by (cases c) (simp_all add: getLogger_keeps)

lemma logger_run_keeps:
  "map_of (loggers s) name = Some r \<Longrightarrow> map_of (loggers (logger_run cs s)) name = Some r"
  unfolding logger_run_def
  by (induction cs arbitrary: s) (simp_all add: logger_step_keeps)

lemma registry_ok_init: "registry_ok logger_init"
  by (simp add: registry_ok_def logger_init_def)

lemma registry_ok_getLogger: "registry_ok s \<Longrightarrow> registry_ok (snd (getLogger name s))"
  by (cases "map_of (loggers s) name") (auto simp: getLogger_def Let_def registry_ok_def)

lemma registry_ok_setGlobalLogLevel: "registry_ok s \<Longrightarrow> registry_ok (setGlobalLogLevel level s)"
  by (simp add: setGlobalLogLevel_def Let_def registry_ok_def)

lemma registry_ok_run: "registry_ok s \<Longrightarrow> registry_ok (logger_run cs s)"
  unfolding logger_run_def
proof (induction cs arbitrary: s)
  case Nil
  then show ?case by simp
next
  case (Cons c cs)
  have "registry_ok (logger_step c s)"
    using Cons.prems by (cases c) (simp_all add: registry_ok_getLogger registry_ok_setGlobalLogLevel)
  then show ?case using Cons.IH by simp
qed

text \<open>
  C10. A second \<open>getLogger\<close> call with the same name returns the same object and changes
  nothing, also after any further calls of the two static methods; a logger that
  \<open>getLogger\<close> creates has the global level of that moment; \<open>setGlobalLogLevel\<close> sets the
  global level and the level of every logger of the registry.
\<close>

theorem logger_registry:
  assumes "registry_ok s"
  shows "getLogger name (snd (getLogger name s)) = getLogger name s
       \<and> fst (getLogger name (logger_run cs (snd (getLogger name s)))) = fst (getLogger name s)
       \<and> (map_of (loggers s) name = None \<longrightarrow>
            fst (getLogger name s) = length (objects s)
            \<and> objects (snd (getLogger name s))
                = objects s @ [\<lparr>lg_name = name, lg_logLevel = globalLogLevel s\<rparr>]
            \<and> lg_logLevel (objects (snd (getLogger name s)) ! fst (getLogger name s))
                = globalLogLevel s)
       \<and> globalLogLevel (setGlobalLogLevel level s) = level
       \<and> loggers (setGlobalLogLevel level s) = loggers s
       \<and> (\<forall>r \<in> snd ` set (loggers s).
            lg_logLevel (objects (setGlobalLogLevel level s) ! r) = level)"
proof (intro conjI impI ballI)
  have reg: "map_of (loggers (snd (getLogger name s))) name = Some (fst (getLogger name s))"
    by (rule getLogger_registers)
  show "getLogger name (snd (getLogger name s)) = getLogger name s"
    using getLogger_registered [OF reg] by simp
  show "fst (getLogger name (logger_run cs (snd (getLogger name s)))) = fst (getLogger name s)"
    using getLogger_registered [OF logger_run_keeps [OF reg]] by simp
next
  assume n: "map_of (loggers s) name = None"
  then show "fst (getLogger name s) = length (objects s)"
    and "objects (snd (getLogger name s))
          = objects s @ [\<lparr>lg_name = name, lg_logLevel = globalLogLevel s\<rparr>]"
    and "lg_logLevel (objects (snd (getLogger name s)) ! fst (getLogger name s)) = globalLogLevel s"
    by (simp_all add: getLogger_def Let_def)
next
  show "globalLogLevel (setGlobalLogLevel level s) = level"
    by (simp add: setGlobalLogLevel_def Let_def)
  show "loggers (setGlobalLogLevel level s) = loggers s"
    by simp
next
  fix r assume r: "r \<in> snd ` set (loggers s)"
  with assms have "r < length (objects s)"
    unfolding registry_ok_def by blast
  then show "lg_logLevel (objects (setGlobalLogLevel level s) ! r) = level"
    using r by (simp add: setGlobalLogLevel_def Let_def fold_set_level_nth)
qed

lemma two_loggers_eq:
  "two_loggers = \<lparr>loggers = [(''main'', 0), (''ui'', 1)], globalLogLevel = INFO,
     objects = [\<lparr>lg_name = ''main'', lg_logLevel = INFO\<rparr>, \<lparr>lg_name = ''ui'', lg_logLevel = INFO\<rparr>]\<rparr>"
  by (simp add: two_loggers_def logger_run_def logger_init_def getLogger_def Let_def
      setGlobalLogLevel_def set_level_def)

theorem logger_registry_witness:
  "registry_ok two_loggers
   \<and> map_of (loggers two_loggers) ''sync'' = None
   \<and> getLogger ''sync'' (snd (getLogger ''sync'' two_loggers)) = getLogger ''sync'' two_loggers
   \<and> fst (getLogger ''sync'' two_loggers) = 2
   \<and> fst (getLogger ''sync'' (logger_run [SetGlobalLogLevel WARN, GetLogger ''io'']
          (snd (getLogger ''sync'' two_loggers)))) = 2
   \<and> lg_logLevel (objects (snd (getLogger ''sync'' two_loggers)) ! 2) = INFO
   \<and> globalLogLevel (setGlobalLogLevel DEBUG two_loggers) = DEBUG
   \<and> lg_logLevel (objects (setGlobalLogLevel DEBUG two_loggers) ! 0) = DEBUG
   \<and> lg_logLevel (objects (setGlobalLogLevel DEBUG two_loggers) ! 1) = DEBUG"
proof -
  have ok: "registry_ok two_loggers"
    unfolding two_loggers_def by (rule registry_ok_run [OF registry_ok_init])
  have n: "map_of (loggers two_loggers) ''sync'' = None"
    by (simp add: two_loggers_eq)
  have f: "fst (getLogger ''sync'' two_loggers) = 2"
    by (simp add: two_loggers_eq getLogger_def Let_def)
  have m: "(0::nat) \<in> snd ` set (loggers two_loggers)" "(1::nat) \<in> snd ` set (loggers two_loggers)"
    by (simp_all add: two_loggers_eq)
  note w = logger_registry [OF ok, of "''sync''" "[SetGlobalLogLevel WARN, GetLogger ''io'']" DEBUG]
  from w ok n f m show ?thesis
    by (simp add: two_loggers_eq)
qed

subsection \<open>Tab manager: the effect of the operations\<close>

lemma invoke_fields [simp]:
  "tabs (invoke h w) = tabs w" "activeTab (invoke h w) = activeTab w"
  "tabContainer (invoke h w) = tabContainer w" "contentContainer (invoke h w) = contentContainer w"
  "containerEl (invoke h w) = containerEl w" "isActive (invoke h w) = isActive w"
  "pageName (invoke h w) = pageName w" "trace (invoke h w) = trace w @ [(h, isActive w)]"
  "toLowerCase (invoke h w) = toLowerCase w"
  by (simp_all add: invoke_def)

lemma updateTabButtonStyles_fields [simp]:
  "tabs (updateTabButtonStyles w) = tabs w" "activeTab (updateTabButtonStyles w) = activeTab w"
  "contentContainer (updateTabButtonStyles w) = contentContainer w"
  "containerEl (updateTabButtonStyles w) = containerEl w"
  "isActive (updateTabButtonStyles w) = isActive w" "pageName (updateTabButtonStyles w) = pageName w"
  "toLowerCase (updateTabButtonStyles w) = toLowerCase w"
  "trace (updateTabButtonStyles w) = trace w"
  by (simp_all add: updateTabButtonStyles_def split: option.splits)

lemma displayActiveTabContent_fields [simp]:
  "tabs (displayActiveTabContent w) = tabs w" "activeTab (displayActiveTabContent w) = activeTab w"
  "tabContainer (displayActiveTabContent w) = tabContainer w"
  "containerEl (displayActiveTabContent w) = containerEl w"
  "isActive (displayActiveTabContent w) = isActive w" "pageName (displayActiveTabContent w) = pageName w"
  "toLowerCase (displayActiveTabContent w) = toLowerCase w"
  by (simp_all add: displayActiveTabContent_def Let_def split: option.splits)

lemma displayActiveTabContent_trace:
  "trace (displayActiveTabContent w) =
     trace w @ (case contentContainer w of
                  None \<Rightarrow> []
                | Some _ \<Rightarrow> (case activeTab w of None \<Rightarrow> [] | Some t \<Rightarrow> [(PageDisplay t, isActive w)]))"
  by (simp add: displayActiveTabContent_def Let_def split: option.splits)

lemma displayActiveTabContent_content:
  "contentContainer (displayActiveTabContent w) =
     (case contentContainer w of
        None \<Rightarrow> None
      | Some c \<Rightarrow> (case activeTab w of None \<Rightarrow> Some c | Some t \<Rightarrow> Some [t]))"
  by (simp add: displayActiveTabContent_def Let_def split: option.splits)

lemma activateTab_fields [simp]:
  "tabs (activateTab tab w) = tabs w" "activeTab (activateTab tab w) = Some tab"
  "containerEl (activateTab tab w) = containerEl w" "pageName (activateTab tab w) = pageName w"
  "toLowerCase (activateTab tab w) = toLowerCase w"
  by (simp_all add: activateTab_def Let_def split: option.splits)

lemma activateTab_isActive:
  "isActive (activateTab tab w) =
     (case activeTab w of None \<Rightarrow> isActive w | Some cur \<Rightarrow> (isActive w)(cur := False))(tab := True)"
  by (simp add: activateTab_def Let_def split: option.splits)

lemma activateTab_content:
  "contentContainer (activateTab tab w) = (case contentContainer w of None \<Rightarrow> None | Some _ \<Rightarrow> Some [tab])"
  by (simp add: activateTab_def Let_def displayActiveTabContent_content split: option.splits)

lemma activateTab_trace:
  "trace (activateTab tab w) =
     trace w
     @ (case activeTab w of None \<Rightarrow> [] | Some cur \<Rightarrow> [(OnDeactivate cur, (isActive w)(cur := False))])
     @ [(OnActivate tab, isActive (activateTab tab w))]
     @ (case contentContainer w of None \<Rightarrow> [] | Some _ \<Rightarrow> [(PageDisplay tab, isActive (activateTab tab w))])"
  by (simp add: activateTab_def Let_def displayActiveTabContent_trace split: option.splits)

lemma activateTab_single:
  "only_current_active w \<Longrightarrow> isActive (activateTab tab w) = (\<lambda>q. q = tab)"
  by (auto simp: activateTab_isActive only_current_active_def fun_eq_iff split: option.splits)

lemma only_current_active_activateTab:
  "only_current_active w \<Longrightarrow> only_current_active (activateTab tab w)"
proof -
  assume "only_current_active w"
  then have "isActive (activateTab tab w) = (\<lambda>q. q = tab)"
    by (rule activateTab_single)
  then show ?thesis
    by (simp add: only_current_active_def)
qed

lemma only_current_active_setActiveTab:
  "only_current_active w \<Longrightarrow> only_current_active (setActiveTab index w)"
  by (simp add: setActiveTab_def only_current_active_activateTab)

lemma only_current_active_setActiveTabById:
  "only_current_active w \<Longrightarrow> only_current_active (setActiveTabById ident w)"
  by (simp add: setActiveTabById_def only_current_active_activateTab split: option.splits)

lemma only_current_active_click:
  "only_current_active w \<Longrightarrow> only_current_active (click i w)"
  by (simp add: click_def only_current_active_activateTab split: option.splits)

lemma only_current_active_hide:
  "only_current_active w \<Longrightarrow> only_current_active (hide w)"
  by (auto simp: hide_def getActiveTab_def only_current_active_def split: option.splits)

text \<open>After \<open>hide\<close> no page is active, until the next activation.\<close>

lemma hide_no_active:
  assumes "only_current_active w"
  shows "isActive (hide w) = (\<lambda>_. False)"
proof (cases "activeTab w")
  case None
  then have "\<not> isActive w p" for p
    using assms by (auto simp: only_current_active_def)
  then show ?thesis
    using None by (simp add: hide_def getActiveTab_def fun_eq_iff)
next
  case (Some a)
  have "p = a" if "isActive w p" for p
    using assms that Some by (simp add: only_current_active_def)
  then have "(isActive w)(a := False) = (\<lambda>_. False)"
    by (auto simp: fun_eq_iff)
  then show ?thesis
    using Some by (simp add: hide_def getActiveTab_def)
qed

lemma create_regions_fields [simp]:
  "tabs (create_regions w) = tabs w" "activeTab (create_regions w) = activeTab w"
  "isActive (create_regions w) = isActive w" "pageName (create_regions w) = pageName w"
  "toLowerCase (create_regions w) = toLowerCase w"
  "trace (create_regions w) = trace w" "contentContainer (create_regions w) = Some []"
  "containerEl (create_regions w)
     = containerEl w @ [Div ''obskit-settings-tab-container'', Div ''obskit-settings-tab-content'']"
  "tabContainer (create_regions w)
     = Some (map (\<lambda>tab. \<lparr>btn_text = pageName w tab, btn_tab = tab, btn_active = False\<rparr>) (tabs w))"
  by (simp_all add: create_regions_def Let_def)

lemma display_nonempty:
  "tabs w = firstTab # rest \<Longrightarrow>
   display w = Inr (activateTab firstTab (create_regions (w\<lparr>containerEl := []\<rparr>)))"
  by (simp add: display_def activate_first_def)

lemma display_empty: "tabs w = [] \<Longrightarrow> display w = Inl (Error ''No tabs have been added to the manager'', w)"
  by (simp add: display_def)

lemma display_Inr_nonempty: "display w = Inr w' \<Longrightarrow> tabs w \<noteq> []"
  by (auto simp: display_def split: if_splits)

lemma only_current_active_display:
  assumes "only_current_active w" and "display w = Inr w'"
  shows "only_current_active w'"
proof -
  from assms(2) obtain firstTab rest where t: "tabs w = firstTab # rest"
    using display_Inr_nonempty by (cases "tabs w") auto
  have "only_current_active (create_regions (w\<lparr>containerEl := []\<rparr>))"
    using assms(1) by (simp add: only_current_active_def)
  then show ?thesis
    using assms(2) display_nonempty [OF t] only_current_active_activateTab by auto
qed

lemma builtin_display_nonempty: "tabs w \<noteq> [] \<Longrightarrow> builtin_display w = display w"
  by (simp add: builtin_display_def display_def Let_def)

lemma builtin_display_empty:
  "tabs w = [] \<Longrightarrow>
   builtin_display w = Inl (Error ''No tabs have been added to the settings tab'', w\<lparr>containerEl := []\<rparr>)"
  by (simp add: builtin_display_def Let_def)

lemma builtin_display_Inr: "builtin_display w = Inr w' \<Longrightarrow> display w = Inr w'"
  by (cases "tabs w = []") (simp_all add: builtin_display_empty builtin_display_nonempty)

lemma builtin_display_Inl: "builtin_display w = Inl (e, w') \<Longrightarrow> w' = w\<lparr>containerEl := []\<rparr>"
  by (auto simp: builtin_display_def Let_def split: if_splits)

lemma reachable_only_current_active: "reachable w \<Longrightarrow> only_current_active w"
proof (induction rule: reachable.induct)
  case (r_new names els)
  show ?case by (simp add: only_current_active_def new_world_def)
next
  case (r_addTab w tab)
  then show ?case by (simp add: only_current_active_def addTab_def)
next
  case (r_addTabs w ts)
  then show ?case by (simp add: only_current_active_def addTabs_def)
next
  case (r_setActiveTab w index)
  then show ?case by (simp add: only_current_active_setActiveTab)
next
  case (r_setActiveTabById w ident)
  then show ?case by (simp add: only_current_active_setActiveTabById)
next
  case (r_click w i)
  then show ?case by (simp add: only_current_active_click)
next
  case (r_display w w')
  then show ?case by (simp add: only_current_active_display)
next
  case (r_builtin_display w w')
  from r_builtin_display.hyps(2) have "display w = Inr w'"
    by (rule builtin_display_Inr)
  with r_builtin_display.IH show ?case
    by (rule only_current_active_display)
next
  case (r_builtin_display_failed w e w')
  from r_builtin_display_failed.hyps(2) have "w' = w\<lparr>containerEl := []\<rparr>"
    by (rule builtin_display_Inl)
  with r_builtin_display_failed.IH show ?case
    by (simp add: only_current_active_def)
next
  case (r_hide w)
  then show ?case by (simp add: only_current_active_hide)
qed

lemma case_snoc: "(case ys @ [y] of [] \<Rightarrow> None | ps \<Rightarrow> Some (last ps)) = Some y"
  by (cases ys) simp_all

lemma last_activated_activateTab: "last_activated (activateTab tab w) = Some tab"
proof -
  have "List.map_filter activated_page (trace (activateTab tab w))
      = List.map_filter activated_page (trace w) @ [tab]"
    by (simp add: activateTab_trace List.map_filter_def split: option.splits)
  then show ?thesis
    by (simp add: last_activated_def case_snoc)
qed

lemma only_current_activeD:
  "only_current_active w \<Longrightarrow> isActive w p \<Longrightarrow> activeTab w = Some p"
  by (simp add: only_current_active_def)

lemma active_pages_single:
  assumes "only_current_active w" and "p \<in> set (tabs w)" and "isActive w p"
  shows "active_pages w = {p}"
proof -
  have same: "q = p" if "isActive w q" for q
  proof -
    have "activeTab w = Some q"
      using assms(1) that by (rule only_current_activeD)
    moreover have "activeTab w = Some p"
      using assms(1,3) by (rule only_current_activeD)
    ultimately show ?thesis by simp
  qed
  show ?thesis
    unfolding active_pages_def
  proof (intro equalityI subsetI)
    fix x assume "x \<in> {q \<in> set (tabs w). isActive w q}"
    then have "isActive w x" by simp
    then have "x = p" by (rule same)
    then show "x \<in> {p}" by simp
  next
    fix x assume "x \<in> {p}"
    then show "x \<in> {q \<in> set (tabs w). isActive w q}"
      using assms(2,3) by simp
  qed
qed

lemma one_active_activateTab:
  assumes "only_current_active w" and "tab \<in> set (tabs w)"
  shows "one_active (activateTab tab w) tab"
proof -
  have "isActive (activateTab tab w) tab"
    using activateTab_single [OF assms(1)] by simp
  moreover have "only_current_active (activateTab tab w)"
    using assms(1) by (rule only_current_active_activateTab)
  ultimately have "active_pages (activateTab tab w) = {tab}"
    using assms(2) by (intro active_pages_single) simp_all
  then show ?thesis
    by (simp add: one_active_def last_activated_activateTab)
qed

lemma find_in_set: "find P xs = Some x \<Longrightarrow> x \<in> set xs"
  by (induction xs) (auto split: if_splits)

lemma tab_step_tabs [simp]: "tabs (tab_step c w) = tabs w"
  by (cases c) (simp_all add: setActiveTab_def setActiveTabById_def split: option.splits)

lemma only_current_active_tab_step:
  "only_current_active w \<Longrightarrow> only_current_active (tab_step c w)"
  by (cases c) (simp_all add: only_current_active_activateTab only_current_active_setActiveTab
      only_current_active_setActiveTabById)

lemma one_active_tab_step:
  assumes "only_current_active w" and "one_active w p"
    and "\<forall>q. c = ActivateTab q \<longrightarrow> q \<in> set (tabs w)"
  shows "\<exists>p'. one_active (tab_step c w) p'"
proof (cases c)
  case (ActivateTab q)
  with assms(3) have "q \<in> set (tabs w)" by simp
  with assms(1) have "one_active (activateTab q w) q"
    by (rule one_active_activateTab)
  then show ?thesis
    unfolding ActivateTab by (intro exI [of _ q]) simp
next
  case (SetActiveTab index)
  show ?thesis
  proof (cases "0 \<le> index \<and> index < int (length (tabs w))")
    case True
    then have "nat index < length (tabs w)" by linarith
    then have "tabs w ! nat index \<in> set (tabs w)" by (rule nth_mem)
    with assms(1) have "one_active (activateTab (tabs w ! nat index) w) (tabs w ! nat index)"
      by (rule one_active_activateTab)
    then show ?thesis
      unfolding SetActiveTab using True
      by (intro exI [of _ "tabs w ! nat index"]) (simp add: setActiveTab_def)
  next
    case False
    then have "tab_step c w = w"
      unfolding SetActiveTab by (auto simp: setActiveTab_def)
    then show ?thesis using assms(2) by (intro exI [of _ p]) simp
  qed
next
  case (SetActiveTabById ident)
  show ?thesis
  proof (cases "find (\<lambda>t. page_id w t = ident) (tabs w)")
    case None
    then have "tab_step c w = w"
      unfolding SetActiveTabById by (simp add: setActiveTabById_def)
    then show ?thesis using assms(2) by (intro exI [of _ p]) simp
  next
    case (Some t)
    then have "t \<in> set (tabs w)" by (rule find_in_set)
    with assms(1) have "one_active (activateTab t w) t"
      by (rule one_active_activateTab)
    then show ?thesis
      unfolding SetActiveTabById using Some
      by (intro exI [of _ t]) (simp add: setActiveTabById_def)
  qed
qed

lemma one_active_run_calls:
  assumes "only_current_active w" and "one_active w p"
    and "\<forall>q. ActivateTab q \<in> set cs \<longrightarrow> q \<in> set (tabs w)"
  shows "\<exists>p'. one_active (run_calls cs w) p'"
  using assms unfolding run_calls_def
proof (induction cs arbitrary: w p)
  case Nil
  then show ?case by auto
next
  case (Cons c cs)
  have "\<forall>q. c = ActivateTab q \<longrightarrow> q \<in> set (tabs w)"
    using Cons.prems(3) by simp
  from one_active_tab_step [OF Cons.prems(1,2) this]
  obtain p' where p': "one_active (tab_step c w) p'" ..
  have o: "only_current_active (tab_step c w)"
    using Cons.prems(1) by (rule only_current_active_tab_step)
  have "\<forall>q. ActivateTab q \<in> set cs \<longrightarrow> q \<in> set (tabs (tab_step c w))"
    using Cons.prems(3) by simp
  from Cons.IH [OF o p' this] show ?case by simp
qed

lemma display_one_active:
  assumes "only_current_active w" and "display w = Inr w'"
  shows "tabs w \<noteq> [] \<and> tabs w' = tabs w \<and> one_active w' (hd (tabs w))"
proof -
  from assms(2) obtain firstTab rest where t: "tabs w = firstTab # rest"
    using display_Inr_nonempty by (cases "tabs w") auto
  let ?c = "create_regions (w\<lparr>containerEl := []\<rparr>)"
  have w': "w' = activateTab firstTab ?c"
    using assms(2) display_nonempty [OF t] by simp
  have "only_current_active ?c"
    using assms(1) by (simp add: only_current_active_def)
  moreover have "firstTab \<in> set (tabs ?c)"
    using t by simp
  ultimately have "one_active (activateTab firstTab ?c) firstTab"
    by (rule one_active_activateTab)
  then show ?thesis using t w' by simp
qed

subsection \<open>Rendered managers\<close>

lemma restyled_buttons_tab:
  "map btn_tab (map (\<lambda>(index, button). if P index then button\<lparr>btn_active := f index\<rparr> else button)
     (enumerate n bs)) = map btn_tab bs"
  by (induction bs arbitrary: n) simp_all

lemma updateTabButtonStyles_buttons:
  "tabContainer (updateTabButtonStyles w) = Some bs' \<Longrightarrow>
   \<exists>bs. tabContainer w = Some bs \<and> map btn_tab bs' = map btn_tab bs"
  by (auto simp: updateTabButtonStyles_def restyled_buttons_tab simp del: map_map split: option.splits)

lemma activateTab_buttons:
  "tabContainer (activateTab tab w) = Some bs' \<Longrightarrow>
   \<exists>bs. tabContainer w = Some bs \<and> map btn_tab bs' = map btn_tab bs"
proof -
  assume "tabContainer (activateTab tab w) = Some bs'"
  then obtain w4 where "tabContainer (updateTabButtonStyles w4) = Some bs'"
    and "tabContainer w4 = tabContainer w"
    by (auto simp: activateTab_def Let_def split: option.splits)
  then show ?thesis
    using updateTabButtonStyles_buttons [of w4 bs'] by simp
qed

lemma buttons_registered_activateTab:
  assumes "buttons_registered w"
  shows "buttons_registered (activateTab tab w)"
proof (cases "tabContainer (activateTab tab w)")
  case None
  then show ?thesis by (simp add: buttons_registered_def)
next
  case (Some bs')
  from activateTab_buttons [OF Some]
  obtain bs where bs: "tabContainer w = Some bs" and m: "map btn_tab bs' = map btn_tab bs"
    by blast
  have "btn_tab ` set bs' = btn_tab ` set bs"
    using m by (metis list.set_map)
  then show ?thesis
    using assms bs Some by (simp add: buttons_registered_def)
qed

lemma buttons_registered_tab_ops:
  assumes "buttons_registered w"
  shows "buttons_registered (setActiveTab index w)"
    and "buttons_registered (setActiveTabById ident w)"
    and "buttons_registered (click i w)"
    and "buttons_registered (addTab tab w)"
    and "buttons_registered (addTabs ts w)"
proof -
  show "buttons_registered (setActiveTab index w)"
    using assms by (simp add: setActiveTab_def buttons_registered_activateTab)
  show "buttons_registered (setActiveTabById ident w)"
    using assms by (simp add: setActiveTabById_def buttons_registered_activateTab split: option.splits)
  show "buttons_registered (click i w)"
    using assms by (simp add: click_def buttons_registered_activateTab split: option.splits)
  show "buttons_registered (addTab tab w)"
    using assms by (auto simp: addTab_def buttons_registered_def split: option.splits)
  show "buttons_registered (addTabs ts w)"
    using assms by (auto simp: addTabs_def buttons_registered_def split: option.splits)
qed

lemma buttons_registered_display:
  assumes "display w = Inr w'"
  shows "buttons_registered w'"
proof -
  from assms obtain firstTab rest where t: "tabs w = firstTab # rest"
    using display_Inr_nonempty by (cases "tabs w") auto
  have "buttons_registered (create_regions (w\<lparr>containerEl := []\<rparr>))"
    by (auto simp: buttons_registered_def)
  then have "buttons_registered (activateTab firstTab (create_regions (w\<lparr>containerEl := []\<rparr>)))"
    by (rule buttons_registered_activateTab)
  then show ?thesis
    using assms display_nonempty [OF t] by simp
qed

lemma one_active_more_tabs:
  assumes "only_current_active w" and "one_active w p" and "tabs w' = tabs w @ ts"
    and "isActive w' = isActive w" and "activeTab w' = activeTab w" and "trace w' = trace w"
  shows "one_active w' p"
proof -
  have p: "p \<in> set (tabs w)" "isActive w p"
    using assms(2) by (auto simp: one_active_def active_pages_def)
  have o: "only_current_active w'"
    using assms(1,4,5) by (simp add: only_current_active_def)
  have "active_pages w' = {p}"
    using o p assms(3,4) by (intro active_pages_single) simp_all
  then show ?thesis
    using assms(2,5,6) by (simp add: one_active_def last_activated_def)
qed

lemma click_target:
  assumes "buttons_registered w" and "tabContainer w = Some bs" and "i < length bs"
  shows "btn_tab (bs ! i) \<in> set (tabs w)"
proof -
  have "bs ! i \<in> set bs"
    using assms(3) by (rule nth_mem)
  then have "btn_tab (bs ! i) \<in> btn_tab ` set bs"
    by (rule imageI)
  then show ?thesis
    using assms(1,2) by (auto simp: buttons_registered_def)
qed

lemma rendered_invariant:
  "rendered w \<Longrightarrow> only_current_active w \<and> buttons_registered w \<and> (\<exists>p. one_active w p)"
proof (induction rule: rendered.induct)
  case (rd_display w w')
  have o: "only_current_active w"
    using rd_display(1) by (rule reachable_only_current_active)
  have "one_active w' (hd (tabs w))"
    using display_one_active [OF o rd_display(2)] by simp
  then show ?case
    using only_current_active_display [OF o rd_display(2)] buttons_registered_display [OF rd_display(2)]
    by blast
next
  case (rd_builtin_display w w')
  have d: "display w = Inr w'"
    using rd_builtin_display(2) by (rule builtin_display_Inr)
  have o: "only_current_active w"
    using rd_builtin_display(1) by (rule reachable_only_current_active)
  have "one_active w' (hd (tabs w))"
    using display_one_active [OF o d] by simp
  then show ?case
    using only_current_active_display [OF o d] buttons_registered_display [OF d]
    by blast
next
  case (rd_addTab w tab)
  then obtain p where o: "only_current_active w" and b: "buttons_registered w" and a: "one_active w p"
    by blast
  have "one_active (addTab tab w) p"
    using o a by (rule one_active_more_tabs [where ts = "[tab]"]) (simp_all add: addTab_def)
  moreover have "only_current_active (addTab tab w)"
    using o by (simp add: only_current_active_def addTab_def)
  ultimately show ?case
    using buttons_registered_tab_ops(4) [OF b] by blast
next
  case (rd_addTabs w ts)
  then obtain p where o: "only_current_active w" and b: "buttons_registered w" and a: "one_active w p"
    by blast
  have "one_active (addTabs ts w) p"
    using o a by (rule one_active_more_tabs [where ts = ts]) (simp_all add: addTabs_def)
  moreover have "only_current_active (addTabs ts w)"
    using o by (simp add: only_current_active_def addTabs_def)
  ultimately show ?case
    using buttons_registered_tab_ops(5) [OF b] by blast
next
  case (rd_setActiveTab w index)
  then obtain p where o: "only_current_active w" and b: "buttons_registered w" and a: "one_active w p"
    by blast
  have "\<forall>q. SetActiveTab index = ActivateTab q \<longrightarrow> q \<in> set (tabs w)" by simp
  from one_active_tab_step [OF o a this]
  have "\<exists>p'. one_active (setActiveTab index w) p'" by simp
  then show ?case
    using only_current_active_setActiveTab [OF o] buttons_registered_tab_ops(1) [OF b] by blast
next
  case (rd_setActiveTabById w ident)
  then obtain p where o: "only_current_active w" and b: "buttons_registered w" and a: "one_active w p"
    by blast
  have "\<forall>q. SetActiveTabById ident = ActivateTab q \<longrightarrow> q \<in> set (tabs w)" by simp
  from one_active_tab_step [OF o a this]
  have "\<exists>p'. one_active (setActiveTabById ident w) p'" by simp
  then show ?case
    using only_current_active_setActiveTabById [OF o] buttons_registered_tab_ops(2) [OF b] by blast
next
  case (rd_click w i)
  then obtain p where o: "only_current_active w" and b: "buttons_registered w" and a: "one_active w p"
    by blast
  have "\<exists>p'. one_active (click i w) p'"
  proof (cases "tabContainer w")
    case None
    then have "click i w = w" by (simp add: click_def)
    then show ?thesis using a by auto
  next
    case (Some bs)
    show ?thesis
    proof (cases "i < length bs")
      case True
      have "btn_tab (bs ! i) \<in> set (tabs w)"
        using b Some True by (rule click_target)
      with o have "one_active (activateTab (btn_tab (bs ! i)) w) (btn_tab (bs ! i))"
        by (rule one_active_activateTab)
      moreover have "click i w = activateTab (btn_tab (bs ! i)) w"
        using Some True by (simp add: click_def)
      ultimately show ?thesis by auto
    next
      case False
      then have "click i w = w" using Some by (simp add: click_def)
      then show ?thesis using a by auto
    qed
  qed
  then show ?case
    using only_current_active_click [OF o] buttons_registered_tab_ops(3) [OF b] by blast
qed

lemma rendered_reachable: "rendered w \<Longrightarrow> reachable w"
proof (induction rule: rendered.induct)
  case (rd_display w w')
  then show ?case by (rule r_display)
next
  case (rd_builtin_display w w')
  then show ?case by (rule r_builtin_display)
next
  case (rd_addTab w tab)
  then show ?case by (intro r_addTab)
next
  case (rd_addTabs w ts)
  then show ?case by (intro r_addTabs)
next
  case (rd_setActiveTab w index)
  then show ?case by (intro r_setActiveTab)
next
  case (rd_setActiveTabById w ident)
  then show ?case by (intro r_setActiveTabById)
next
  case (rd_click w i)
  then show ?case by (intro r_click)
qed

subsection \<open>The example manager\<close>

lemma slug_examples:
  "slug ascii_lower (js ''General'') = js ''general''"
  "slug ascii_lower (js ''Performance'') = js ''performance''"
  "slug ascii_lower (js ''Advanced'') = js ''advanced''"
  by (simp_all add: slug_def ascii_lower_def js_def is_space_def)

lemma example_manager_fields:
  "tabs example_manager = [0, 1, 2]" "activeTab example_manager = None"
  "pageName example_manager = example_names" "trace example_manager = []"
  "toLowerCase example_manager = ascii_lower"
  "isActive example_manager = (\<lambda>_. False)"
  by (simp_all add: example_manager_def empty_manager_def addTabs_def new_world_def)

lemma example_manager_reachable: "reachable example_manager"
  unfolding example_manager_def empty_manager_def by (intro r_addTabs r_new)

lemma example_display: "display example_manager = Inr example_rendered"
  by (simp add: display_def example_rendered_def example_manager_fields)

lemma example_rendered_eq:
  "example_rendered = activateTab 0 (create_regions (example_manager\<lparr>containerEl := []\<rparr>))"
  by (simp add: example_rendered_def activate_first_def example_manager_fields)

lemma example_rendered_fields:
  "tabs example_rendered = [0, 1, 2]" "activeTab example_rendered = Some 0"
  "pageName example_rendered = example_names" "contentContainer example_rendered = Some [0]"
  "toLowerCase example_rendered = ascii_lower"
  "isActive example_rendered = (\<lambda>_. False)(0 := True)"
  "trace example_rendered = [(OnActivate 0, (\<lambda>_. False)(0 := True)), (PageDisplay 0, (\<lambda>_. False)(0 := True))]"
  by (simp_all add: example_rendered_eq example_manager_fields activateTab_content
      activateTab_isActive activateTab_trace)

lemma example_page_ids:
  "page_id w 0 = js ''general''" "page_id w 1 = js ''performance''" "page_id w 2 = js ''advanced''"
  "page_id w (Suc 0) = js ''performance''"
  if "pageName w = example_names" and "toLowerCase w = ascii_lower"
  using that by (simp_all add: page_id_def example_names_def slug_examples)

lemma js_distinct:
  "js ''general'' \<noteq> js ''advanced''" "js ''performance'' \<noteq> js ''advanced''"
  by (simp_all add: js_def)

lemma example_run:
  "activeTab (run_calls (take 1 example_calls) example_rendered) = Some 2"
  "activeTab (run_calls (take 2 example_calls) example_rendered) = Some 2"
  "activeTab (run_calls (take 3 example_calls) example_rendered) = Some 1"
  "activeTab (run_calls (take 4 example_calls) example_rendered) = Some 0"
  by (simp_all add: example_calls_def run_calls_def setActiveTabById_def setActiveTab_def
      example_rendered_fields example_page_ids js_distinct)

subsection \<open>Tab manager: the claims\<close>

text \<open>
  C1, as stated, fails. The manager \<open>example_hidden\<close> has three registered pages, \<open>display\<close> has
  run on it, and then the host has called \<open>hide\<close>; after the call \<open>setActiveTab(7)\<close>, which
  does nothing, no registered page has its flag set.
\<close>

theorem single_active_page_counterexample:
  "display example_manager = Inr example_rendered
   \<and> example_hidden = hide example_rendered
   \<and> reachable example_hidden
   \<and> tabs example_hidden = [0, 1, 2]
   \<and> contentContainer example_hidden = Some [0]
   \<and> run_calls [SetActiveTab 7] example_hidden = example_hidden
   \<and> active_pages (run_calls [SetActiveTab 7] example_hidden) = {}"
proof -
  have r: "reachable example_hidden"
    unfolding example_hidden_def
    by (intro r_hide r_display [OF example_manager_reachable example_display])
  have h: "example_hidden = invoke (OnDeactivate 0)
      (example_rendered\<lparr>isActive := (isActive example_rendered)(0 := False)\<rparr>)"
    by (simp add: example_hidden_def hide_def getActiveTab_def example_rendered_fields)
  have t: "tabs example_hidden = [0, 1, 2]" "contentContainer example_hidden = Some [0]"
    by (simp_all add: h example_rendered_fields)
  have f: "isActive example_hidden = (\<lambda>_. False)"
    by (simp add: h example_rendered_fields fun_eq_iff)
  have n: "run_calls [SetActiveTab 7] example_hidden = example_hidden"
    by (simp add: run_calls_def setActiveTab_def t)
  have "active_pages example_hidden = {}"
    by (simp add: active_pages_def f)
  with r t n show ?thesis
    by (simp add: example_display example_hidden_def)
qed

text \<open>
  C1, amended. Take a manager with a non-empty registry on which \<open>display\<close> has run and
  \<open>hide\<close> has not run since. After each call of any sequence of \<open>activateTab\<close> (of a
  registered page), \<open>setActiveTab\<close> and \<open>setActiveTabById\<close> calls, exactly one registered page
  has its flag set; it is the manager's active page and the page of the most recent
  \<open>onActivate\<close> call.
\<close>

theorem single_active_page:
  assumes "rendered w"
    and "\<forall>p. ActivateTab p \<in> set cs \<longrightarrow> p \<in> set (tabs w)"
  shows "tabs w \<noteq> []
       \<and> (\<forall>n \<le> length cs. \<exists>p.
             active_pages (run_calls (take n cs) w) = {p}
             \<and> activeTab (run_calls (take n cs) w) = Some p
             \<and> last_activated (run_calls (take n cs) w) = Some p)"
proof (intro conjI allI impI)
  from rendered_invariant [OF assms(1)]
  obtain p where o: "only_current_active w" and a: "one_active w p"
    by blast
  from a have "p \<in> set (tabs w)"
    by (auto simp: one_active_def active_pages_def)
  then show "tabs w \<noteq> []" by auto
  fix n assume "n \<le> length cs"
  have "\<forall>q. ActivateTab q \<in> set (take n cs) \<longrightarrow> q \<in> set (tabs w)"
  proof (intro allI impI)
    fix q assume "ActivateTab q \<in> set (take n cs)"
    then have "ActivateTab q \<in> set cs" by (rule in_set_takeD)
    with assms(2) show "q \<in> set (tabs w)" by simp
  qed
  from one_active_run_calls [OF o a this]
  show "\<exists>p. active_pages (run_calls (take n cs) w) = {p}
           \<and> activeTab (run_calls (take n cs) w) = Some p
           \<and> last_activated (run_calls (take n cs) w) = Some p"
    by (simp add: one_active_def)
qed

theorem single_active_page_witness:
  "rendered example_rendered \<and> rendered (addTab 3 example_rendered)
   \<and> active_pages example_rendered = {0}
   \<and> active_pages (run_calls (take 1 example_calls) example_rendered) = {2}
   \<and> active_pages (run_calls (take 2 example_calls) example_rendered) = {2}
   \<and> active_pages (run_calls (take 3 example_calls) example_rendered) = {1}
   \<and> active_pages (run_calls (take 4 example_calls) example_rendered) = {0}
   \<and> last_activated (run_calls (take 4 example_calls) example_rendered) = Some 0
   \<and> active_pages (run_calls [SetActiveTab 3] (addTab 3 example_rendered)) = {3}"
proof -
  have rd: "rendered example_rendered"
    by (rule rd_display [OF example_manager_reachable example_display])
  have rd': "rendered (addTab 3 example_rendered)"
    using rd by (rule rd_addTab)
  have reg: "\<forall>p. ActivateTab p \<in> set example_calls \<longrightarrow> p \<in> set (tabs example_rendered)"
    by (simp add: example_calls_def example_rendered_fields)
  have reg': "\<forall>p. ActivateTab p \<in> set [SetActiveTab 3] \<longrightarrow> p \<in> set (tabs (addTab 3 example_rendered))"
    by simp
  note w = single_active_page [OF rd reg]
  note w' = single_active_page [OF rd' reg']
  have len: "length example_calls = 4" by (simp add: example_calls_def)
  have "\<exists>p. active_pages (run_calls (take n example_calls) example_rendered) = {p}
          \<and> activeTab (run_calls (take n example_calls) example_rendered) = Some p
          \<and> last_activated (run_calls (take n example_calls) example_rendered) = Some p"
    if "n \<le> 4" for n
    using conjunct2 [OF w, rule_format, of n] that len by simp
  from this [of 0] this [of 1] this [of 2] this [of 3] this [of 4]
  have main: "active_pages example_rendered = {0}
   \<and> active_pages (run_calls (take 1 example_calls) example_rendered) = {2}
   \<and> active_pages (run_calls (take 2 example_calls) example_rendered) = {2}
   \<and> active_pages (run_calls (take 3 example_calls) example_rendered) = {1}
   \<and> active_pages (run_calls (take 4 example_calls) example_rendered) = {0}
   \<and> last_activated (run_calls (take 4 example_calls) example_rendered) = Some 0"
    using example_run by (auto simp: run_calls_def example_rendered_fields)
  have "activeTab (run_calls [SetActiveTab 3] (addTab 3 example_rendered)) = Some 3"
    by (simp add: run_calls_def setActiveTab_def addTab_def example_rendered_fields)
  moreover have "\<exists>p. active_pages (run_calls [SetActiveTab 3] (addTab 3 example_rendered)) = {p}
          \<and> activeTab (run_calls [SetActiveTab 3] (addTab 3 example_rendered)) = Some p
          \<and> last_activated (run_calls [SetActiveTab 3] (addTab 3 example_rendered)) = Some p"
    using conjunct2 [OF w', rule_format, of 1] by simp
  ultimately have late: "active_pages (run_calls [SetActiveTab 3] (addTab 3 example_rendered)) = {3}"
    by auto
  from rd rd' main late show ?thesis by simp
qed

text \<open>
  C4. On an empty registry the manager's \<open>display\<close> raises before it touches anything, and so
  does the settings tab that delegates to it. The older \<open>PluginSettingsTab.display\<close> empties
  the container first: with no pages registered the earlier content of the container is
  gone when the error is raised.
\<close>

theorem builtin_display_empties_container:
  "tabs empty_manager = []
   \<and> containerEl empty_manager = [HostContent ''previous content'']
   \<and> builtin_display empty_manager
       = Inl (Error ''No tabs have been added to the settings tab'', empty_manager\<lparr>containerEl := []\<rparr>)
   \<and> display empty_manager
       = Inl (Error ''No tabs have been added to the manager'', empty_manager)
   \<and> settingsTab_display empty_manager
       = Inl (Error ''No tabs have been added to the manager'', empty_manager)"
  by (simp add: builtin_display_def display_def settingsTab_display_def empty_manager_def new_world_def)

text \<open>
  C5, as stated, fails: with page 0 active after a render, activating page 0 again calls its
  \<open>onDeactivate\<close>, and its flag is false while that call runs.
\<close>

theorem reactivation_counterexample:
  "activeTab example_rendered = Some 0 \<and> isActive example_rendered 0
   \<and> map fst (drop (length (trace example_rendered)) (trace (activateTab 0 example_rendered)))
       = [OnDeactivate 0, OnActivate 0, PageDisplay 0]
   \<and> snd (trace (activateTab 0 example_rendered) ! length (trace example_rendered)) 0 = False"
  by (simp add: activateTab_trace example_rendered_fields)

text \<open>
  C5, amended. Activating the page that is already active runs the deactivate step as well:
  the flag of the page is cleared and its \<open>onDeactivate\<close> is called, then the flag is set
  again, \<open>onActivate\<close> is called, and the page is displayed anew into the emptied content
  region.
\<close>

theorem reactivation_runs_deactivate:
  assumes "activeTab w = Some p" and "contentContainer w = Some c"
  shows "trace (activateTab p w) =
           trace w @ [(OnDeactivate p, (isActive w)(p := False)),
                      (OnActivate p, (isActive w)(p := True)),
                      (PageDisplay p, (isActive w)(p := True))]
       \<and> isActive (activateTab p w) = (isActive w)(p := True)
       \<and> activeTab (activateTab p w) = Some p
       \<and> contentContainer (activateTab p w) = Some [p]"
  using assms by (simp add: activateTab_trace activateTab_isActive activateTab_content)

theorem reactivation_runs_deactivate_witness:
  "activeTab example_rendered = Some 0 \<and> contentContainer example_rendered = Some [0]
   \<and> map fst (drop (length (trace example_rendered)) (trace (activateTab 0 example_rendered)))
       = [OnDeactivate 0, OnActivate 0, PageDisplay 0]
   \<and> map (\<lambda>c. snd c 0) (drop (length (trace example_rendered)) (trace (activateTab 0 example_rendered)))
       = [False, True, True]
   \<and> isActive (activateTab 0 example_rendered) 0
   \<and> contentContainer (activateTab 0 example_rendered) = Some [0]"
proof -
  have a: "activeTab example_rendered = Some 0" and c: "contentContainer example_rendered = Some [0]"
    by (rule example_rendered_fields)+
  from reactivation_runs_deactivate [OF a c] a c show ?thesis
    by (simp add: example_rendered_fields)
qed

text \<open>
  C6. Activating page \<open>b\<close> while a different page \<open>a\<close> is the active one calls
  \<open>a.onDeactivate\<close>, then \<open>b.onActivate\<close>, then \<open>b.display\<close>; when \<open>b.display\<close> is called the
  flag of \<open>a\<close> is already false and the flag of \<open>b\<close> already true.
\<close>

theorem activation_order:
  assumes "activeTab w = Some a" and "a \<noteq> b" and "contentContainer w = Some c"
  shows "trace (activateTab b w) =
           trace w @ [(OnDeactivate a, (isActive w)(a := False)),
                      (OnActivate b, (isActive w)(a := False, b := True)),
                      (PageDisplay b, (isActive w)(a := False, b := True))]
       \<and> ((isActive w)(a := False, b := True)) a = False
       \<and> ((isActive w)(a := False, b := True)) b = True
       \<and> isActive (activateTab b w) = (isActive w)(a := False, b := True)
       \<and> contentContainer (activateTab b w) = Some [b]"
  using assms by (simp add: activateTab_trace activateTab_isActive activateTab_content)

theorem activation_order_witness:
  "activeTab example_rendered = Some 0 \<and> contentContainer example_rendered = Some [0]
   \<and> map fst (drop (length (trace example_rendered)) (trace (activateTab 2 example_rendered)))
       = [OnDeactivate 0, OnActivate 2, PageDisplay 2]
   \<and> snd (last (trace (activateTab 2 example_rendered))) 0 = False
   \<and> snd (last (trace (activateTab 2 example_rendered))) 2 = True
   \<and> isActive (activateTab 2 example_rendered) 0 = False
   \<and> isActive (activateTab 2 example_rendered) 2 = True"
proof -
  have a: "activeTab example_rendered = Some 0" and c: "contentContainer example_rendered = Some [0]"
    by (rule example_rendered_fields)+
  have n: "(0::nat) \<noteq> 2" by simp
  from activation_order [OF a n c] a c show ?thesis by simp
qed

text \<open>
  C8. Rendering a manager with the pages \<open>p1\<close>, \<open>p2\<close>, \<open>p3\<close> succeeds and leaves the first
  page active and the other two inactive, whatever was activated before the render.
\<close>

theorem first_page_default:
  assumes "reachable w" and "tabs w = [p1, p2, p3]" and "p1 \<noteq> p2" and "p1 \<noteq> p3"
  shows "\<exists>w'. display w = Inr w' \<and> builtin_display w = Inr w'
           \<and> isActive w' p1 \<and> \<not> isActive w' p2 \<and> \<not> isActive w' p3
           \<and> activeTab w' = Some p1 \<and> contentContainer w' = Some [p1]"
proof -
  let ?c = "create_regions (w\<lparr>containerEl := []\<rparr>)"
  have d: "display w = Inr (activateTab p1 ?c)"
    using assms(2) by (rule display_nonempty)
  have b: "builtin_display w = display w"
    using assms(2) by (simp add: builtin_display_nonempty)
  have "only_current_active w"
    using assms(1) by (rule reachable_only_current_active)
  then have "only_current_active ?c"
    by (simp add: only_current_active_def)
  then have "isActive (activateTab p1 ?c) = (\<lambda>q. q = p1)"
    by (rule activateTab_single)
  then show ?thesis
    using d b assms(3,4) by (simp add: activateTab_content)
qed

theorem first_page_default_witness:
  "reachable example_manager \<and> tabs example_manager = [0, 1, 2]
   \<and> display example_manager = Inr example_rendered
   \<and> isActive example_rendered 0 \<and> \<not> isActive example_rendered 1 \<and> \<not> isActive example_rendered 2"
proof -
  have t: "tabs example_manager = [0, 1, 2]" by (rule example_manager_fields)
  have "\<exists>w'. display example_manager = Inr w' \<and> builtin_display example_manager = Inr w'
           \<and> isActive w' 0 \<and> \<not> isActive w' 1 \<and> \<not> isActive w' 2
           \<and> activeTab w' = Some 0 \<and> contentContainer w' = Some [0]"
    by (rule first_page_default [OF example_manager_reachable t]) simp_all
  then show ?thesis
    using example_manager_reachable t by (auto simp: example_display)
qed

text \<open>
  C9. \<open>hide\<close> clears the flag of the active page and calls its \<open>onDeactivate\<close>, and the
  manager still reports that page as the active one; the next \<open>activateTab\<close>, whatever its
  target, calls \<open>onDeactivate\<close> of that page once more.
\<close>

theorem hide_keeps_reference:
  assumes "activeTab w = Some a"
  shows "isActive (hide w) = (isActive w)(a := False)
       \<and> trace (hide w) = trace w @ [(OnDeactivate a, (isActive w)(a := False))]
       \<and> getActiveTab (hide w) = Some a
       \<and> trace (activateTab t (hide w)) =
           trace w @ [(OnDeactivate a, (isActive w)(a := False)),
                      (OnDeactivate a, (isActive w)(a := False)),
                      (OnActivate t, (isActive w)(a := False, t := True))]
             @ (case contentContainer w of
                  None \<Rightarrow> []
                | Some _ \<Rightarrow> [(PageDisplay t, (isActive w)(a := False, t := True))])"
proof -
  have h: "hide w = invoke (OnDeactivate a) (w\<lparr>isActive := (isActive w)(a := False)\<rparr>)"
    using assms by (simp add: hide_def getActiveTab_def)
  show ?thesis
    unfolding h using assms
    by (simp add: activateTab_trace activateTab_isActive getActiveTab_def split: option.splits)
qed

theorem hide_keeps_reference_witness:
  "activeTab example_rendered = Some 0
   \<and> isActive (hide example_rendered) 0 = False
   \<and> getActiveTab (hide example_rendered) = Some 0
   \<and> map fst (drop (length (trace example_rendered)) (trace (activateTab 1 (hide example_rendered))))
       = [OnDeactivate 0, OnDeactivate 0, OnActivate 1, PageDisplay 1]"
proof -
  have a: "activeTab example_rendered = Some 0"
    by (rule example_rendered_fields)
  from hide_keeps_reference [OF a, of 1] a show ?thesis
    by (simp add: example_rendered_fields)
qed

end
